theory Spec2Isabelle
  imports Main "HOL-Library.Char_ord" "HOL-Library.List_Lexorder"
begin


section \<open>Python values and errors\<close>

text \<open>
  The schema document is what \<^verbatim>\<open>json.loads\<close> returns: nested Python dicts and lists
  over strings, integers, booleans and \<^verbatim>\<open>None\<close>. A dict is an association list in
  insertion order (the script relies on that order); its keys are Python values, since the
  discriminator mapping is keyed by the tag constants. Non-integral numbers are not
  modelled, and strings are lists of 8-bit characters.
\<close>

datatype json =
    JNull
  | JBool bool
  | JInt int
  | JStr string
  | JList "json list"
  | JDict "(json \<times> json) list"

datatype error =
    KeyError
  | TypeError
  | AttributeError
  | IndexError
  | RuntimeError
  | AssertionError
  | RecursionError
  | UnboundLocalError

type_synonym SchemaObject = "(json \<times> json) list"
type_synonym SchemaList = "json list"

text \<open>\<^verbatim>\<open>d[k]\<close> for a string key: the first (only) entry under that key.\<close>

definition dget :: "string \<Rightarrow> SchemaObject \<Rightarrow> json option" where
  "dget k d = map_of d (JStr k)"

text \<open>\<^verbatim>\<open>d.get(k, None)\<close>: a missing key and a stored \<^verbatim>\<open>None\<close> both give \<^verbatim>\<open>None\<close>.\<close>

definition py_get :: "string \<Rightarrow> SchemaObject \<Rightarrow> json" where
  "py_get k d = (case dget k d of None \<Rightarrow> JNull | Some v \<Rightarrow> v)"

text \<open>\<^verbatim>\<open>d[k] = v\<close> for a string key: an existing key keeps its position, a new key is appended.\<close>

fun dset :: "string \<Rightarrow> json \<Rightarrow> SchemaObject \<Rightarrow> SchemaObject" where
  "dset k v [] = [(JStr k, v)]"
| "dset k v ((k', v') # d) = (if k' = JStr k then (k', v) # d else (k', v') # dset k v d)"

text \<open>\<^verbatim>\<open>d.setdefault(k, v)\<close>: only a missing key is written; a key holding \<^verbatim>\<open>None\<close> is present.\<close>

definition setdefault :: "string \<Rightarrow> json \<Rightarrow> SchemaObject \<Rightarrow> SchemaObject" where
  "setdefault k v d = (case dget k d of None \<Rightarrow> dset k v d | Some _ \<Rightarrow> d)"

section \<open>String helpers\<close>

definition endswith :: "string \<Rightarrow> string \<Rightarrow> bool" where
  "endswith s suf = (length suf \<le> length s \<and> drop (length s - length suf) s = suf)"

definition removesuffix :: "string \<Rightarrow> string \<Rightarrow> string" where
  "removesuffix s suf = (if endswith s suf then take (length s - length suf) s else s)"

section \<open>Discriminator detection\<close>

definition POTENTIAL_TAG_FIELDS :: "string list" where
  "POTENTIAL_TAG_FIELDS = [''type'', ''success'', ''role'', ''code'']"

text \<open>
  \<^verbatim>\<open>_check_discriminator\<close>. \<^verbatim>\<open>entry.get\<close> and \<^verbatim>\<open>properties.get\<close> raise AttributeError on
  anything but a dict; \<^verbatim>\<open>field_def["type"]\<close> raises KeyError on a dict without that key and
  TypeError on a value that is not a dict; the loop returns at the first failing entry.
\<close>

fun check_discriminator :: "string \<Rightarrow> SchemaList \<Rightarrow> error + bool" where
  "check_discriminator tag_field [] = Inr True"
| "check_discriminator tag_field (entry # union_array) =
    (case entry of
       JDict e \<Rightarrow>
         (case py_get ''properties'' e of
            JNull \<Rightarrow> Inr False
          | JDict properties \<Rightarrow>
              (case py_get tag_field properties of
                 JNull \<Rightarrow> Inr False
               | JDict field_def \<Rightarrow>
                   (case dget ''type'' field_def of
                      None \<Rightarrow> Inl KeyError
                    | Some t \<Rightarrow>
                        if t \<noteq> JStr ''string'' then Inr False
                        else (case py_get ''const'' field_def of
                                JNull \<Rightarrow> Inr False
                              | _ \<Rightarrow> check_discriminator tag_field union_array))
               | _ \<Rightarrow> Inl TypeError)
          | _ \<Rightarrow> Inl AttributeError)
     | _ \<Rightarrow> Inl AttributeError)"

section \<open>The optional-result rewrite\<close>

definition void_spec :: json where
  "void_spec = JDict [(JStr ''not'', JDict [])]"

definition null_spec :: json where
  "null_spec = JDict [(JStr ''type'', JStr ''null'')]"

text \<open>
  Membership in \<^verbatim>\<open>allows_omission\<close> is Python's \<^verbatim>\<open>==\<close> against two dicts of one entry each
  whose values are an empty dict and a string; on those it agrees with structural equality.
\<close>

definition allows_omission :: "json \<Rightarrow> bool" where
  "allows_omission x = (x = void_spec \<or> x = null_spec)"

text \<open>\<^verbatim>\<open>_is_void_union\<close> on a list; \<^verbatim>\<open>JNull\<close> is the \<^verbatim>\<open>None\<close> it returns.\<close>

fun is_void_union :: "SchemaList \<Rightarrow> json" where
  "is_void_union [first, second] =
     (if allows_omission first then
        (if \<not> allows_omission second then second else JNull)
      else if allows_omission second then first
      else JNull)"
| "is_void_union union_members = JNull"

definition ref_to :: "string \<Rightarrow> json" where
  "ref_to spec_ref = JDict [(JStr ''$ref'', JStr spec_ref)]"

text \<open>
  \<^verbatim>\<open>_process_rpc_result_union\<close>: the updated \<^verbatim>\<open>spec\<close> (its \<^verbatim>\<open>anyOf\<close> list is assigned in
  place) and the returned value, \<^verbatim>\<open>JNull\<close> for \<^verbatim>\<open>None\<close>. A string or dict under
  \<^verbatim>\<open>anyOf\<close> has a length but no member equal to a dict, so nothing is rewritten; a value
  without a length raises TypeError.
\<close>

definition process_rpc_result_union :: "string \<Rightarrow> SchemaObject \<Rightarrow> error + (SchemaObject \<times> json)" where
  "process_rpc_result_union name spec =
     (case dget ''anyOf'' spec of
        None \<Rightarrow> Inl KeyError
      | Some (JList union_member_specs) \<Rightarrow>
          (case is_void_union union_member_specs of
             JNull \<Rightarrow> Inr (spec, JNull)
           | result_spec \<Rightarrow>
               let result_spec_name = removesuffix name ''/returns'' @ ''ReturnValue'';
                   result_spec_ref = ''#/definitions/'' @ result_spec_name
               in Inr (dset ''anyOf'' (JList [ref_to result_spec_ref, null_spec]) spec,
                       JDict [(JStr result_spec_name, result_spec)]))
      | Some (JStr _) \<Rightarrow> Inr (spec, JNull)
      | Some (JDict _) \<Rightarrow> Inr (spec, JNull)
      | Some _ \<Rightarrow> Inl TypeError)"


section \<open>More string helpers\<close>

text \<open>\<^verbatim>\<open>s.split(c)\<close> for a one-character separator: never empty, \<^verbatim>\<open>"".split("/") == [""]\<close>.\<close>

fun split_on :: "char \<Rightarrow> string \<Rightarrow> string list" where
  "split_on c [] = [[]]"
| "split_on c (x # xs) =
     (if x = c then [] # split_on c xs
      else (let r = split_on c xs in (x # hd r) # tl r))"

text \<open>
  Case conversion. Python's \<^verbatim>\<open>str.upper\<close> and \<^verbatim>\<open>str.lower\<close> follow the Unicode tables; on
  ASCII characters they convert the letters and keep everything else, and that is what is
  modelled. \<^verbatim>\<open>capitalize\<close> is only applied to a candidate tag field, which is ASCII; a
  synthesized name is modelled exactly when each part of its suffix begins with an ASCII
  character.
\<close>

definition upper_char :: "char \<Rightarrow> char" where
  "upper_char c =
     (case map_of (zip ''abcdefghijklmnopqrstuvwxyz'' ''ABCDEFGHIJKLMNOPQRSTUVWXYZ'') c of
        Some u \<Rightarrow> u | None \<Rightarrow> c)"

definition lower_char :: "char \<Rightarrow> char" where
  "lower_char c =
     (case map_of (zip ''ABCDEFGHIJKLMNOPQRSTUVWXYZ'' ''abcdefghijklmnopqrstuvwxyz'') c of
        Some l \<Rightarrow> l | None \<Rightarrow> c)"

text \<open>\<^verbatim>\<open>s.capitalize()\<close>: first character upper case, the rest lower case.\<close>

fun capitalize :: "string \<Rightarrow> string" where
  "capitalize [] = []"
| "capitalize (c # cs) = upper_char c # map lower_char cs"

text \<open>\<^verbatim>\<open>str.replace\<close> of one character by another.\<close>

definition replace_char :: "char \<Rightarrow> char \<Rightarrow> string \<Rightarrow> string" where
  "replace_char a b s = map (\<lambda>c. if c = a then b else c) s"

text \<open>\<^verbatim>\<open>[p[0].upper() + p[1:] for p in parts]\<close>: an empty part raises IndexError.\<close>

fun camel_cased :: "string list \<Rightarrow> error + string list" where
  "camel_cased [] = Inr []"
| "camel_cased (p # parts) =
     (case p of
        [] \<Rightarrow> Inl IndexError
      | c # cs \<Rightarrow>
          (case camel_cased parts of
             Inl e \<Rightarrow> Inl e
           | Inr ps \<Rightarrow> Inr ((upper_char c # cs) # ps)))"

text \<open>
  \<^verbatim>\<open>_make_spec_name\<close>. The suffix is a tag constant or a dict key; \<^verbatim>\<open>suffix.replace\<close>
  raises AttributeError unless it is a string.
\<close>

definition make_spec_name :: "string \<Rightarrow> json \<Rightarrow> error + string" where
  "make_spec_name parent_name suffix =
     (case suffix of
        JStr s \<Rightarrow>
          (case camel_cased (split_on CHR ''/'' (replace_char CHR ''.'' CHR ''/'' s)) of
             Inl e \<Rightarrow> Inl e
           | Inr parts \<Rightarrow> Inr (parent_name @ concat parts))
      | _ \<Rightarrow> Inl AttributeError)"

section \<open>References into the document\<close>

text \<open>\<^verbatim>\<open>x[k]\<close> with a string \<^verbatim>\<open>k\<close>: KeyError on a dict without it, TypeError on any other value.\<close>

definition py_subscript :: "json \<Rightarrow> string \<Rightarrow> error + json" where
  "py_subscript x k =
     (case x of
        JDict d \<Rightarrow> (case dget k d of None \<Rightarrow> Inl KeyError | Some v \<Rightarrow> Inr v)
      | _ \<Rightarrow> Inl TypeError)"

fun walk_ref :: "json \<Rightarrow> string list \<Rightarrow> error + json" where
  "walk_ref ref_target [] = Inr ref_target"
| "walk_ref ref_target (ref_part # ref_parts) =
     (case py_subscript ref_target ref_part of
        Inl e \<Rightarrow> Inl e
      | Inr t \<Rightarrow> walk_ref t ref_parts)"

text \<open>
  The objects of the document form a tree, and a reference only steps through dict keys.
  An object is therefore named by the list of keys that leads to it, \<^verbatim>\<open>ref_path\<close>, and
  the in-place updates of the script are updates of the document at such a path.
\<close>

definition ref_path :: "string \<Rightarrow> string list" where
  "ref_path ref = tl (split_on CHR ''/'' ref)"

definition resolve_json_ref :: "json \<Rightarrow> string \<Rightarrow> error + json" where
  "resolve_json_ref json_schema ref =
     (let ref_parts = split_on CHR ''/'' ref in
      if hd ref_parts \<noteq> ''#'' then Inl RuntimeError
      else (case tl ref_parts of
              [] \<Rightarrow> Inl IndexError
            | p # ps \<Rightarrow> walk_ref json_schema (p # ps)))"

text \<open>Apply \<^verbatim>\<open>f\<close> to the value stored under an existing key.\<close>

fun dupd :: "string \<Rightarrow> (json \<Rightarrow> json) \<Rightarrow> SchemaObject \<Rightarrow> SchemaObject" where
  "dupd k f [] = []"
| "dupd k f ((k', v) # d) = (if k' = JStr k then (k', f v) # d else (k', v) # dupd k f d)"

primrec upd_at :: "string list \<Rightarrow> (json \<Rightarrow> json) \<Rightarrow> json \<Rightarrow> json" where
  "upd_at [] f = f"
| "upd_at (p # ps) f = (\<lambda>t. case t of JDict d \<Rightarrow> JDict (dupd p (upd_at ps f) d) | _ \<Rightarrow> t)"

text \<open>\<^verbatim>\<open>del d[k]\<close> on a dict that has the key.\<close>

definition ddel :: "string \<Rightarrow> SchemaObject \<Rightarrow> SchemaObject" where
  "ddel k d = filter (\<lambda>kv. fst kv \<noteq> JStr k) d"

section \<open>Merging extracted definitions\<close>

text \<open>
  \<^verbatim>\<open>_merge_defs\<close>: \<^verbatim>\<open>None\<close> and the empty dict are skipped, a shared key raises
  RuntimeError, otherwise the new entries are appended in their order.
\<close>

definition merge_defs :: "SchemaObject \<Rightarrow> json \<Rightarrow> error + SchemaObject" where
  "merge_defs existing_defs new_defs =
     (case new_defs of
        JDict nd \<Rightarrow>
          if nd = [] then Inr existing_defs
          else if \<exists>k \<in> set (map fst nd). k \<in> set (map fst existing_defs) then Inl RuntimeError
          else Inr (existing_defs @ nd)
      | _ \<Rightarrow> Inr existing_defs)"


section \<open>Extracting the variants of a union\<close>

text \<open>Python truthiness of a loaded value (\<^verbatim>\<open>if existing_ref:\<close>).\<close>

definition truthy :: "json \<Rightarrow> bool" where
  "truthy x =
     (case x of
        JNull \<Rightarrow> False
      | JBool b \<Rightarrow> b
      | JInt n \<Rightarrow> n \<noteq> 0
      | JStr s \<Rightarrow> s \<noteq> []
      | JList l \<Rightarrow> l \<noteq> []
      | JDict d \<Rightarrow> d \<noteq> [])"

text \<open>
  An entry of \<^verbatim>\<open>spec_refs\<close> together with its entry of \<^verbatim>\<open>resolved_specs\<close>: a member that
  is a reference keeps the reference string (the resolved object is the one at
  \<^verbatim>\<open>ref_path\<close> in the document), an anonymous member is the inline object itself.
\<close>

datatype variant = Named string | Anonymous json

fun resolve_members :: "json \<Rightarrow> SchemaList \<Rightarrow> error + (variant \<times> json) list" where
  "resolve_members doc [] = Inr []"
| "resolve_members doc (member_spec # rest) =
     (case member_spec of
        JDict m \<Rightarrow>
          (let existing_ref = py_get ''$ref'' m in
           if truthy existing_ref then
             (case existing_ref of
                JStr ref \<Rightarrow>
                  (case resolve_json_ref doc ref of
                     Inl e \<Rightarrow> Inl e
                   | Inr resolved_spec \<Rightarrow>
                       (case resolve_members doc rest of
                          Inl e \<Rightarrow> Inl e
                        | Inr vs \<Rightarrow> Inr ((Named ref, resolved_spec) # vs)))
              | _ \<Rightarrow> Inl AttributeError)
           else
             (case resolve_members doc rest of
                Inl e \<Rightarrow> Inl e
              | Inr vs \<Rightarrow> Inr ((Anonymous member_spec, member_spec) # vs)))
      | _ \<Rightarrow> Inl AttributeError)"

text \<open>The first candidate tag field that every resolved member passes.\<close>

fun find_discriminator :: "string list \<Rightarrow> SchemaList \<Rightarrow> error + string option" where
  "find_discriminator [] resolved_specs = Inr None"
| "find_discriminator (tag_field # tag_fields) resolved_specs =
     (case check_discriminator tag_field resolved_specs of
        Inl e \<Rightarrow> Inl e
      | Inr True \<Rightarrow> Inr (Some tag_field)
      | Inr False \<Rightarrow> find_discriminator tag_fields resolved_specs)"

text \<open>
  \<^verbatim>\<open>discriminator_map[tag_value] = spec_ref\<close>. The key is any hashable constant; Python
  compares dict keys with \<^verbatim>\<open>==\<close>, under which \<^verbatim>\<open>True == 1\<close> and \<^verbatim>\<open>False == 0\<close>.
\<close>

definition hashable :: "json \<Rightarrow> bool" where
  "hashable x = (case x of JList _ \<Rightarrow> False | JDict _ \<Rightarrow> False | _ \<Rightarrow> True)"

fun key_eq :: "json \<Rightarrow> json \<Rightarrow> bool" where
  "key_eq (JBool a) (JInt n) = ((if a then 1 else 0) = n)"
| "key_eq (JInt n) (JBool a) = (n = (if a then 1 else 0))"
| "key_eq a b = (a = b)"

fun map_set :: "json \<Rightarrow> json \<Rightarrow> SchemaObject \<Rightarrow> SchemaObject" where
  "map_set k v [] = [(k, v)]"
| "map_set k v ((k', v') # d) = (if key_eq k' k then (k', v) # d else (k', v') # map_set k v d)"

text \<open>The two \<^verbatim>\<open>setdefault\<close> calls on a variant's tag-field subschema.\<close>

definition set_tag_defaults :: "json \<Rightarrow> string \<Rightarrow> json \<Rightarrow> json" where
  "set_tag_defaults tag_value tag_title tag_spec =
     (case tag_spec of
        JDict d \<Rightarrow> JDict (setdefault ''title'' (JStr tag_title) (setdefault ''default'' tag_value d))
      | _ \<Rightarrow> tag_spec)"

text \<open>\<^verbatim>\<open>union_member_specs[idx] = member\<close> on the \<^verbatim>\<open>anyOf\<close> list of \<^verbatim>\<open>spec\<close>.\<close>

definition set_member :: "nat \<Rightarrow> json \<Rightarrow> json \<Rightarrow> json" where
  "set_member idx member spec =
     upd_at [''anyOf''] (\<lambda>l. case l of JList ms \<Rightarrow> JList (ms[idx := member]) | _ \<Rightarrow> l) spec"

definition set_discriminator :: "SchemaObject \<Rightarrow> string \<Rightarrow> json \<Rightarrow> json" where
  "set_discriminator discriminator_map discriminator spec =
     (case spec of
        JDict d \<Rightarrow>
          JDict (dset ''discriminator''
                   (JDict [(JStr ''mapping'', JDict discriminator_map),
                           (JStr ''propertyName'', JStr discriminator)]) d)
      | _ \<Rightarrow> spec)"

text \<open>
  One iteration of the second loop of \<^verbatim>\<open>_extract_union_variants\<close>, for the member at
  index \<^verbatim>\<open>idx\<close>. The state is the document, \<^verbatim>\<open>new_defs\<close> and \<^verbatim>\<open>discriminator_map\<close>;
  \<^verbatim>\<open>path\<close> leads to the union itself. An anonymous member is stored in \<^verbatim>\<open>new_defs\<close>
  before its tag field receives the defaults, and it is the same object, so the stored
  definition carries them.
\<close>

definition define_variant ::
  "string \<Rightarrow> string \<Rightarrow> string list \<Rightarrow> nat \<Rightarrow> variant \<Rightarrow>
   json \<times> SchemaObject \<times> SchemaObject \<Rightarrow> error + (json \<times> SchemaObject \<times> SchemaObject)" where
  "define_variant name discriminator path idx v st =
     (case st of (doc, new_defs, discriminator_map) \<Rightarrow>
      (case v of
        Anonymous resolved_spec \<Rightarrow>
          (case walk_ref resolved_spec [''properties'', discriminator] of
             Inl e \<Rightarrow> Inl e
           | Inr tag_spec \<Rightarrow>
               (case py_subscript tag_spec ''const'' of
                  Inl e \<Rightarrow> Inl e
                | Inr tag_value \<Rightarrow>
                    (case make_spec_name name tag_value of
                       Inl e \<Rightarrow> Inl e
                     | Inr new_spec_name \<Rightarrow>
                         (let spec_ref = ''#/definitions/'' @ new_spec_name;
                              extracted =
                                upd_at [''properties'', discriminator]
                                  (set_tag_defaults tag_value (capitalize discriminator))
                                  resolved_spec;
                              doc' = upd_at path (set_member idx (ref_to spec_ref)) doc
                          in Inr (doc', dset new_spec_name extracted new_defs,
                                  map_set tag_value (JStr spec_ref) discriminator_map)))))
      | Named spec_ref \<Rightarrow>
          (case walk_ref doc (ref_path spec_ref @ [''properties'', discriminator]) of
             Inl e \<Rightarrow> Inl e
           | Inr tag_spec \<Rightarrow>
               (case py_subscript tag_spec ''const'' of
                  Inl e \<Rightarrow> Inl e
                | Inr tag_value \<Rightarrow>
                    if \<not> hashable tag_value then Inl TypeError
                    else
                      (let doc' =
                             upd_at (ref_path spec_ref @ [''properties'', discriminator])
                               (set_tag_defaults tag_value (capitalize discriminator)) doc
                       in Inr (doc', new_defs,
                               map_set tag_value (JStr spec_ref) discriminator_map))))))"

text \<open>The loop itself, from index \<^verbatim>\<open>idx\<close> on; an exception ends it.\<close>

fun define_variants ::
  "string \<Rightarrow> string \<Rightarrow> string list \<Rightarrow> nat \<Rightarrow> variant list \<Rightarrow>
   json \<times> SchemaObject \<times> SchemaObject \<Rightarrow> error + (json \<times> SchemaObject \<times> SchemaObject)" where
  "define_variants name discriminator path idx [] st = Inr st"
| "define_variants name discriminator path idx (v # vs) st =
     (case define_variant name discriminator path idx v st of
        Inl e \<Rightarrow> Inl e
      | Inr st' \<Rightarrow> define_variants name discriminator path (Suc idx) vs st')"

text \<open>
  \<^verbatim>\<open>_extract_union_variants\<close> for the union at \<^verbatim>\<open>path\<close>: the updated document and the
  returned value (\<^verbatim>\<open>JNull\<close> for \<^verbatim>\<open>None\<close>). Both callers have matched
  \<^verbatim>\<open>{"anyOf": [*_]}\<close>, so \<^verbatim>\<open>anyOf\<close> is a list here; the last branch is never taken.
\<close>

definition extract_union_variants :: "json \<Rightarrow> string \<Rightarrow> string list \<Rightarrow> error + (json \<times> json)" where
  "extract_union_variants doc name path =
     (case walk_ref doc path of
        Inl e \<Rightarrow> Inl e
      | Inr spec \<Rightarrow>
          (case py_subscript spec ''anyOf'' of
             Inl e \<Rightarrow> Inl e
           | Inr (JList union_member_specs) \<Rightarrow>
               (case resolve_members doc union_member_specs of
                  Inl e \<Rightarrow> Inl e
                | Inr members \<Rightarrow>
                    (case find_discriminator POTENTIAL_TAG_FIELDS (map snd members) of
                       Inl e \<Rightarrow> Inl e
                     | Inr None \<Rightarrow>
                         if endswith name ''/returns'' then
                           (case spec of
                              JDict s \<Rightarrow>
                                (case process_rpc_result_union name s of
                                   Inl e \<Rightarrow> Inl e
                                 | Inr (s', r) \<Rightarrow> Inr (upd_at path (\<lambda>_. JDict s') doc, r))
                            | _ \<Rightarrow> Inl TypeError)
                         else Inr (doc, JNull)
                     | Inr (Some discriminator) \<Rightarrow>
                         (case define_variants name discriminator path 0 (map fst members)
                                 (doc, [], []) of
                            Inl e \<Rightarrow> Inl e
                          | Inr (doc', new_defs, discriminator_map) \<Rightarrow>
                              Inr (upd_at path (set_discriminator discriminator_map discriminator) doc',
                                   JDict new_defs))))
           | Inr _ \<Rightarrow> Inl TypeError))"

section \<open>The recursive walk\<close>

text \<open>The \<^verbatim>\<open>match\<close> statement of \<^verbatim>\<open>_process_subschema\<close>, in the order of its cases.\<close>

datatype shape = Union | Array | Object SchemaObject | Other

definition match_subschema :: "json \<Rightarrow> shape" where
  "match_subschema spec =
     (case spec of
        JDict d \<Rightarrow>
          (case dget ''anyOf'' d of
             Some (JList _) \<Rightarrow> Union
           | _ \<Rightarrow>
               (case (dget ''type'' d, dget ''items'' d, dget ''properties'' d) of
                  (Some (JStr t), Some (JDict _), Some (JDict field_defs)) \<Rightarrow>
                    if t = ''array'' then Array
                    else if t = ''object'' then Object field_defs else Other
                | (Some (JStr t), Some (JDict _), _) \<Rightarrow>
                    if t = ''array'' then Array else Other
                | (Some (JStr t), _, Some (JDict field_defs)) \<Rightarrow>
                    if t = ''object'' then Object field_defs else Other
                | _ \<Rightarrow> Other))
      | _ \<Rightarrow> Other)"

text \<open>
  \<^verbatim>\<open>_process_subschema\<close> for the object at \<^verbatim>\<open>path\<close>, and the loop over the fields of an
  object. Each call reads the object as the document holds it at that moment. The
  recursion is bounded by a counter; running out is reported as RecursionError.
\<close>

fun process_subschema :: "nat \<Rightarrow> json \<Rightarrow> string \<Rightarrow> string list \<Rightarrow> error + (json \<times> json)"
  and process_fields ::
    "nat \<Rightarrow> json \<Rightarrow> string \<Rightarrow> string list \<Rightarrow> json list \<Rightarrow> SchemaObject \<Rightarrow>
     error + (json \<times> SchemaObject)" where
  "process_subschema 0 doc name path = Inl RecursionError"
| "process_subschema (Suc n) doc name path =
     (case walk_ref doc path of
        Inl e \<Rightarrow> Inl e
      | Inr spec \<Rightarrow>
          (case match_subschema spec of
             Union \<Rightarrow>
               (case extract_union_variants doc name path of
                  Inl e \<Rightarrow> Inl e
                | Inr (doc', JNull) \<Rightarrow> Inr (doc', JNull)
                | Inr (doc', union_member_defs) \<Rightarrow>
                    (case walk_ref doc' path of
                       Inl e \<Rightarrow> Inl e
                     | Inr spec' \<Rightarrow>
                         (case merge_defs [(JStr name, spec')] union_member_defs of
                            Inl e \<Rightarrow> Inl e
                          | Inr union_defs \<Rightarrow>
                              Inr (upd_at path (\<lambda>_. ref_to (''#/definitions/'' @ name)) doc',
                                   JDict union_defs))))
           | Array \<Rightarrow> process_subschema n doc (name @ ''Item'') (path @ [''items''])
           | Object field_defs \<Rightarrow>
               (case process_fields n doc name path (map fst field_defs) [] of
                  Inl e \<Rightarrow> Inl e
                | Inr (doc', extracted_defs) \<Rightarrow> Inr (doc', JDict extracted_defs))
           | Other \<Rightarrow> Inr (doc, JNull)))"
| "process_fields n doc name path [] extracted_defs = Inr (doc, extracted_defs)"
| "process_fields n doc name path (field_name # rest) extracted_defs =
     (case make_spec_name name field_name of
        Inl e \<Rightarrow> Inl e
      | Inr field_spec_name \<Rightarrow>
          (case field_name of
             JStr f \<Rightarrow>
               (case process_subschema n doc field_spec_name (path @ [''properties'', f]) of
                  Inl e \<Rightarrow> Inl e
                | Inr (doc', defs) \<Rightarrow>
                    (case merge_defs extracted_defs defs of
                       Inl e \<Rightarrow> Inl e
                     | Inr extracted_defs' \<Rightarrow>
                         process_fields n doc' name path rest extracted_defs'))
           | _ \<Rightarrow> Inl AttributeError))"


section \<open>The inference pass\<close>

definition EXCLUDE_EXPORTED_SCHEMAS :: "string list" where
  "EXCLUDE_EXPORTED_SCHEMAS = [''llmContextReferenceJsonFile'', ''llmContextReferenceYamlFile'']"

text \<open>
  \<^verbatim>\<open>_process_named_spec\<close> for the definition \<^verbatim>\<open>name\<close>. A counter of the size of the
  document bounds the walk below it.
\<close>

definition process_named_spec :: "json \<Rightarrow> string \<Rightarrow> error + (json \<times> json)" where
  "process_named_spec doc name =
     (case walk_ref doc [''definitions'', name] of
        Inl e \<Rightarrow> Inl e
      | Inr spec \<Rightarrow>
          (case match_subschema spec of
             Union \<Rightarrow> extract_union_variants doc name [''definitions'', name]
           | _ \<Rightarrow> process_subschema (size doc) doc name [''definitions'', name]))"

text \<open>\<^verbatim>\<open>for excluded_def in ...: del schema_defs[excluded_def]\<close>.\<close>

fun delete_excluded :: "string list \<Rightarrow> json \<Rightarrow> error + json" where
  "delete_excluded [] schema_defs = Inr schema_defs"
| "delete_excluded (excluded_def # rest) schema_defs =
     (case schema_defs of
        JDict d \<Rightarrow>
          (case dget excluded_def d of
             None \<Rightarrow> Inl KeyError
           | Some _ \<Rightarrow> delete_excluded rest (JDict (ddel excluded_def d)))
      | _ \<Rightarrow> Inl TypeError)"

text \<open>
  The loop over \<^verbatim>\<open>schema_defs.items()\<close>. The keys of a loaded document are strings; the
  loop adds no key, so it runs over the keys it started with and reads each definition
  from the current document.
\<close>

fun process_defs :: "json list \<Rightarrow> json \<Rightarrow> SchemaObject \<Rightarrow> error + (json \<times> SchemaObject)" where
  "process_defs [] doc new_defs = Inr (doc, new_defs)"
| "process_defs (key # keys) doc new_defs =
     (case key of
        JStr name \<Rightarrow>
          (case process_named_spec doc name of
             Inl e \<Rightarrow> Inl e
           | Inr (doc', defs) \<Rightarrow>
               (case merge_defs new_defs defs of
                  Inl e \<Rightarrow> Inl e
                | Inr new_defs' \<Rightarrow> process_defs keys doc' new_defs'))
      | _ \<Rightarrow> Inl TypeError)"

text \<open>\<^verbatim>\<open>_process_schema\<close> on the loaded document.\<close>

definition process_schema :: "json \<Rightarrow> error + json" where
  "process_schema doc =
     (case py_subscript doc ''definitions'' of
        Inl e \<Rightarrow> Inl e
      | Inr schema_defs \<Rightarrow>
          (case delete_excluded EXCLUDE_EXPORTED_SCHEMAS schema_defs of
             Inl e \<Rightarrow> Inl e
           | Inr (JDict d) \<Rightarrow>
               (let doc1 = upd_at [''definitions''] (\<lambda>_. JDict d) doc in
                case process_defs (map fst d) doc1 [] of
                  Inl e \<Rightarrow> Inl e
                | Inr (doc2, new_defs) \<Rightarrow>
                    (case py_subscript doc2 ''definitions'' of
                       Inr (JDict d2) \<Rightarrow>
                         (case merge_defs d2 (JDict new_defs) of
                            Inl e \<Rightarrow> Inl e
                          | Inr merged \<Rightarrow> Inr (upd_at [''definitions''] (\<lambda>_. JDict merged) doc2))
                     | Inr _ \<Rightarrow> Inl TypeError
                     | Inl e \<Rightarrow> Inl e))
           | Inr _ \<Rightarrow> Inl TypeError))"

text \<open>The processor object: the document and the flag that it has been processed.\<close>

record processor =
  schema :: json
  processed :: bool

definition infer_unions :: "processor \<Rightarrow> error + (processor \<times> json)" where
  "infer_unions self =
     (if \<not> processed self then
        (case process_schema (schema self) of
           Inl e \<Rightarrow> Inl e
         | Inr doc \<Rightarrow> Inr (self\<lparr>schema := doc, processed := True\<rparr>, doc))
      else Inr (self, schema self))"

section \<open>Properties of the inference pass: auxiliary notions\<close>

text \<open>
  What the discriminator detector asks of one union member: it is an object with declared
  properties, the tag field is among them with type \<^verbatim>\<open>"string"\<close>, and that property
  declares a constant.
\<close>

definition declares_tag :: "string \<Rightarrow> json \<Rightarrow> bool" where
  "declares_tag tag_field entry =
     (case entry of
        JDict e \<Rightarrow>
          (case dget ''properties'' e of
             Some (JDict properties) \<Rightarrow>
               (case dget tag_field properties of
                  Some (JDict field_def) \<Rightarrow>
                    dget ''type'' field_def = Some (JStr ''string'') \<and>
                    (case dget ''const'' field_def of Some c \<Rightarrow> c \<noteq> JNull | None \<Rightarrow> False)
                | _ \<Rightarrow> False)
           | _ \<Rightarrow> False)
      | _ \<Rightarrow> False)"

text \<open>A member with declared properties, none of which is the tag field.\<close>

definition lacks_tag :: "string \<Rightarrow> json \<Rightarrow> bool" where
  "lacks_tag tag_field entry =
     (case entry of
        JDict e \<Rightarrow>
          (case dget ''properties'' e of
             Some (JDict properties) \<Rightarrow> dget tag_field properties = None
           | _ \<Rightarrow> False)
      | _ \<Rightarrow> False)"

text \<open>Building a dict from string keys, for the example documents.\<close>

definition obj :: "(string \<times> json) list \<Rightarrow> json" where
  "obj kvs = JDict (map (\<lambda>(k, v). (JStr k, v)) kvs)"

text \<open>
  \<^verbatim>\<open>{"definitions": {"Foo/returns": {"anyOf": [{"not": {}}, {"type": "string"}]}}}\<close>
\<close>

definition example_returns_doc :: json where
  "example_returns_doc =
     obj [(''definitions'',
           obj [(''Foo/returns'',
                 obj [(''anyOf'', JList [void_spec, obj [(''type'', JStr ''string'')]])])])]"



text \<open>Where the tag-field subschema of a referenced variant lives in the document.\<close>

definition tag_path :: "string \<Rightarrow> string \<Rightarrow> string list" where
  "tag_path spec_ref discriminator = ref_path spec_ref @ [''properties'', discriminator]"

text \<open>
  The effect of the two \<^verbatim>\<open>setdefault\<close> calls on a tag-field subschema with constant
  \<^verbatim>\<open>tag_value\<close>: \<^verbatim>\<open>"default"\<close> and \<^verbatim>\<open>"title"\<close> are present afterwards, with the value they
  had if they had one and with the constant and the capitalised tag-field name if not;
  no other key changes.
\<close>

definition defaults_applied :: "string \<Rightarrow> json \<Rightarrow> SchemaObject \<Rightarrow> SchemaObject \<Rightarrow> bool" where
  "defaults_applied discriminator tag_value tag_spec tag_spec' =
     (dget ''const'' tag_spec = Some tag_value \<and>
      dget ''default'' tag_spec' =
        Some (case dget ''default'' tag_spec of None \<Rightarrow> tag_value | Some old \<Rightarrow> old) \<and>
      dget ''title'' tag_spec' =
        Some (case dget ''title'' tag_spec of
                None \<Rightarrow> JStr (capitalize discriminator) | Some old \<Rightarrow> old) \<and>
      (\<forall>k. k \<noteq> ''default'' \<and> k \<noteq> ''title'' \<longrightarrow> dget k tag_spec' = dget k tag_spec))"

text \<open>
  What an update elsewhere in the document can do to a value that was there before: a
  string, number, boolean or \<^verbatim>\<open>None\<close> is still the same value, and a list or an object is
  still a list or an object (its contents may have been updated).
\<close>

definition kept :: "json \<Rightarrow> json \<Rightarrow> bool" where
  "kept old new = (if hashable old then new = old else \<not> hashable new)"

text \<open>
  Two properties of an in-place update \<^verbatim>\<open>f\<close> of one object. It keeps the lookups below
  the object, those starting with a key in \<^verbatim>\<open>K\<close> apart; and the only lookups that succeed
  afterwards without having succeeded before are those in \<^verbatim>\<open>C\<close>.
\<close>

definition keeps_lookups :: "string set \<Rightarrow> (json \<Rightarrow> json) \<Rightarrow> bool" where
  "keeps_lookups K f =
     ((\<forall>v. kept v (f v)) \<and>
      (\<forall>v k rest x. k \<notin> K \<and> walk_ref v (k # rest) = Inr x \<longrightarrow>
         (\<exists>x'. walk_ref (f v) (k # rest) = Inr x' \<and> kept x x')))"

definition no_new_lookups :: "string list set \<Rightarrow> (json \<Rightarrow> json) \<Rightarrow> bool" where
  "no_new_lookups C f =
     (\<forall>v k rest x. walk_ref (f v) (k # rest) = Inr x \<longrightarrow>
        (\<exists>y. walk_ref v (k # rest) = Inr y) \<or> k # rest \<in> C)"

text \<open>The path \<^verbatim>\<open>q\<close> leads to the object at \<^verbatim>\<open>p\<close> or into it.\<close>

definition within :: "string list \<Rightarrow> string list \<Rightarrow> bool" where
  "within p q = (take (length p) q = p)"

text \<open>
  The tag-field subschema of a referenced variant, at the path \<^verbatim>\<open>q\<close>, before the
  extraction (in \<^verbatim>\<open>doc\<close>) and after it (in \<^verbatim>\<open>doc'\<close>): it has the same constant, and
  \<^verbatim>\<open>"default"\<close> and \<^verbatim>\<open>"title"\<close> are present afterwards, with the value they had if they had
  one and with the constant and the capitalised tag-field name if not.
\<close>

definition named_variant_defaults :: "string \<Rightarrow> json \<Rightarrow> json \<Rightarrow> string list \<Rightarrow> bool" where
  "named_variant_defaults discriminator doc doc' q =
     (\<exists>tag_spec tag_spec' tag_value default_value title_value.
        walk_ref doc q = Inr (JDict tag_spec) \<and>
        dget ''const'' tag_spec = Some tag_value \<and>
        walk_ref doc' q = Inr (JDict tag_spec') \<and>
        dget ''const'' tag_spec' = Some tag_value \<and>
        dget ''default'' tag_spec' = Some default_value \<and>
        kept (case dget ''default'' tag_spec of None \<Rightarrow> tag_value | Some old \<Rightarrow> old)
          default_value \<and>
        dget ''title'' tag_spec' = Some title_value \<and>
        kept (case dget ''title'' tag_spec of
                None \<Rightarrow> JStr (capitalize discriminator) | Some old \<Rightarrow> old)
          title_value)"

text \<open>
  The definition extracted from an anonymous variant: the variant itself, stored under the
  name synthesized from its constant, with the defaults applied to its tag-field
  subschema and nothing else changed.
\<close>

definition anonymous_variant_extracted ::
  "string \<Rightarrow> string \<Rightarrow> json \<Rightarrow> string \<Rightarrow> json \<Rightarrow> bool" where
  "anonymous_variant_extracted name discriminator resolved_spec new_spec_name extracted =
     (\<exists>tag_spec tag_spec' tag_value.
        walk_ref resolved_spec [''properties'', discriminator] = Inr (JDict tag_spec) \<and>
        defaults_applied discriminator tag_value tag_spec tag_spec' \<and>
        make_spec_name name tag_value = Inr new_spec_name \<and>
        extracted = upd_at [''properties'', discriminator] (\<lambda>_. JDict tag_spec') resolved_spec)"

subsection \<open>Example documents\<close>

text \<open>
  A union of two referenced variants and an anonymous one, tagged by \<^verbatim>\<open>"type"\<close>:
  \<^verbatim>\<open>Circle\<close> has a title already, \<^verbatim>\<open>Ring\<close> has neither default nor title. Then the
  document and the definitions that the extraction returns for it.
\<close>

definition example_square :: json where
  "example_square =
     obj [(''type'', JStr ''object''),
          (''properties'',
           obj [(''type'', obj [(''type'', JStr ''string''), (''const'', JStr ''square'')]),
                (''side'', obj [(''type'', JStr ''number'')])])]"

definition example_circle :: json where
  "example_circle =
     obj [(''type'', JStr ''object''),
          (''properties'',
           obj [(''type'', obj [(''type'', JStr ''string''), (''const'', JStr ''circle''),
                                (''title'', JStr ''Kind'')]),
                (''radius'', obj [(''type'', JStr ''number'')])])]"

definition example_ring :: json where
  "example_ring =
     obj [(''type'', JStr ''object''),
          (''properties'',
           obj [(''type'', obj [(''type'', JStr ''string''), (''const'', JStr ''ring'')]),
                (''width'', obj [(''type'', JStr ''number'')])])]"

definition example_figure_members :: "json list" where
  "example_figure_members =
     [obj [(''$ref'', JStr ''#/definitions/Circle'')],
      obj [(''$ref'', JStr ''#/definitions/Ring'')],
      example_square]"

definition example_figure_doc :: json where
  "example_figure_doc =
     obj [(''definitions'',
           obj [(''Figure'', obj [(''anyOf'', JList example_figure_members)]),
                (''Circle'', example_circle),
                (''Ring'', example_ring)])]"

definition example_figure_out :: json where
  "example_figure_out =
     obj [(''definitions'',
           obj [(''Figure'',
                 obj [(''anyOf'', JList [obj [(''$ref'', JStr ''#/definitions/Circle'')],
                                         obj [(''$ref'', JStr ''#/definitions/Ring'')],
                                         obj [(''$ref'', JStr ''#/definitions/FigureSquare'')]]),
                      (''discriminator'',
                       obj [(''mapping'',
                             obj [(''circle'', JStr ''#/definitions/Circle''),
                                  (''ring'', JStr ''#/definitions/Ring''),
                                  (''square'', JStr ''#/definitions/FigureSquare'')]),
                            (''propertyName'', JStr ''type'')])]),
                (''Circle'',
                 obj [(''type'', JStr ''object''),
                      (''properties'',
                       obj [(''type'', obj [(''type'', JStr ''string''),
                                            (''const'', JStr ''circle''),
                                            (''title'', JStr ''Kind''),
                                            (''default'', JStr ''circle'')]),
                            (''radius'', obj [(''type'', JStr ''number'')])])]),
                (''Ring'',
                 obj [(''type'', JStr ''object''),
                      (''properties'',
                       obj [(''type'', obj [(''type'', JStr ''string''),
                                            (''const'', JStr ''ring''),
                                            (''default'', JStr ''ring''),
                                            (''title'', JStr ''Type'')]),
                            (''width'', obj [(''type'', JStr ''number'')])])])])]"

definition example_figure_defs :: json where
  "example_figure_defs =
     obj [(''FigureSquare'',
           obj [(''type'', JStr ''object''),
                (''properties'',
                 obj [(''type'', obj [(''type'', JStr ''string''),
                                      (''const'', JStr ''square''),
                                      (''default'', JStr ''square''),
                                      (''title'', JStr ''Type'')]),
                      (''side'', obj [(''type'', JStr ''number'')])])])]"

text \<open>Two documents with the excluded definitions, and what the pass makes of them.\<close>

definition example_plain_doc :: json where
  "example_plain_doc =
     obj [(''definitions'',
           obj [(''llmContextReferenceJsonFile'', obj [(''type'', JStr ''object'')]),
                (''llmContextReferenceYamlFile'', obj [(''type'', JStr ''object'')]),
                (''modelInfo'',
                 obj [(''type'', JStr ''object''),
                      (''properties'', obj [(''path'', obj [(''type'', JStr ''string'')])])])])]"

definition example_plain_out :: json where
  "example_plain_out =
     obj [(''definitions'',
           obj [(''modelInfo'',
                 obj [(''type'', JStr ''object''),
                      (''properties'', obj [(''path'', obj [(''type'', JStr ''string'')])])])])]"



text \<open>
  A document with an optional result, the document of the first pass over it, and that
  document with the two excluded definitions put back.
\<close>

definition example_rpc_doc :: json where
  "example_rpc_doc =
     obj [(''definitions'',
           obj [(''llmContextReferenceJsonFile'', obj [(''type'', JStr ''object'')]),
                (''llmContextReferenceYamlFile'', obj [(''type'', JStr ''object'')]),
                (''Foo/returns'',
                 obj [(''anyOf'', JList [void_spec, obj [(''type'', JStr ''string'')]])])])]"

definition example_rpc_out :: json where
  "example_rpc_out =
     obj [(''definitions'',
           obj [(''Foo/returns'',
                 obj [(''anyOf'',
                       JList [obj [(''$ref'', JStr ''#/definitions/FooReturnValue'')],
                              obj [(''type'', JStr ''null'')]])]),
                (''FooReturnValue'', obj [(''type'', JStr ''string'')])])]"

definition example_rpc_restored :: json where
  "example_rpc_restored =
     obj [(''definitions'',
           obj [(''llmContextReferenceJsonFile'', obj [(''type'', JStr ''object'')]),
                (''llmContextReferenceYamlFile'', obj [(''type'', JStr ''object'')]),
                (''Foo/returns'',
                 obj [(''anyOf'',
                       JList [obj [(''$ref'', JStr ''#/definitions/FooReturnValue'')],
                              obj [(''type'', JStr ''null'')]])]),
                (''FooReturnValue'', obj [(''type'', JStr ''string'')])])]"

section \<open>The generated module as a syntax tree\<close>

text \<open>
  The part of Python's \<^verbatim>\<open>ast\<close> that the post-processing inspects. An expression or
  statement of any other class is kept with the name of its class, its child expressions
  and its child statements; the identifiers such nodes carry (attribute names, function
  names, argument names) are part of the node and are not touched by the script.
\<close>

datatype expr_context = Load | Store | Del

datatype operator = BitOr | OtherOperator string

datatype const_value = CNone | CStr string | COther string

datatype expr =
    Name string expr_context
  | Constant const_value
  | Subscript expr expr expr_context
  | Tuple "expr list" expr_context
  | BinOp expr operator expr
  | OtherExpr string "expr list"

text \<open>
  \<^verbatim>\<open>ClassDef(name, bases, kwds, body, decorator_list)\<close>, where \<^verbatim>\<open>kwds\<close> are the keyword
  arguments of the class statement, each with its optional argument name and its value;
  \<^verbatim>\<open>Assign(targets, value)\<close>; \<^verbatim>\<open>Expr(value)\<close>.
\<close>

datatype stmt =
    ClassDef string "expr list" "(string option \<times> expr) list" "stmt list" "expr list"
  | Assign "expr list" expr
  | Expr expr
  | OtherStmt string "expr list" "stmt list"

section \<open>The name override table\<close>

definition DATA_MODEL_NAME_OVERRIDES :: "(string \<times> string) list" where
  "DATA_MODEL_NAME_OVERRIDES =
    [(''ChatMessageData'', ''AnyChatMessage''),
     (''ChatMessageDataUser'', ''UserMessage''),
     (''ChatMessageDataSystem'', ''SystemPrompt''),
     (''ChatMessageDataAssistant'', ''AssistantResponse''),
     (''ChatMessageDataTool'', ''ToolResultMessage''),
     (''ChatMessageDataUserDict'', ''UserMessageDict''),
     (''ChatMessageDataSystemDict'', ''SystemPromptDict''),
     (''ChatMessageDataAssistantDict'', ''AssistantResponseDict''),
     (''ChatMessageDataToolDict'', ''ToolResultMessageDict''),
     (''ChatMessagePartFileData'', ''FileHandle''),
     (''ChatMessagePartFileDataDict'', ''FileHandleDict''),
     (''ChatMessagePartTextData'', ''TextData''),
     (''ChatMessagePartTextDataDict'', ''TextDataDict''),
     (''ChatMessagePartToolCallRequestData'', ''ToolCallRequestData''),
     (''ChatMessagePartToolCallRequestDataDict'', ''ToolCallRequestDataDict''),
     (''ChatMessagePartToolCallResultData'', ''ToolCallResultData''),
     (''ChatMessagePartToolCallResultDataDict'', ''ToolCallResultDataDict''),
     (''FunctionToolCallRequest'', ''ToolCallRequest''),
     (''FunctionToolCallRequestDict'', ''ToolCallRequestDict''),
     (''LlmChannelPredictCreationParameter'', ''PredictionChannelRequest''),
     (''LlmChannelPredictCreationParameterDict'', ''PredictionChannelRequestDict''),
     (''RepositoryChannelDownloadModelCreationParameter'', ''DownloadModelChannelRequest''),
     (''RepositoryChannelDownloadModelCreationParameterDict'', ''DownloadModelChannelRequestDict''),
     (''PluginsChannelSetPromptPreprocessorToClientPacketPreprocess'', ''PromptPreprocessingRequest''),
     (''PluginsChannelSetPromptPreprocessorToClientPacketPreprocessDict'',
      ''PromptPreprocessingRequestDict''),
     (''PluginsChannelSetPromptPreprocessorToServerPacketAborted'', ''PromptPreprocessingAborted''),
     (''PluginsChannelSetPromptPreprocessorToServerPacketAbortedDict'',
      ''PromptPreprocessingAbortedDict''),
     (''PluginsChannelSetPromptPreprocessorToServerPacketComplete'', ''PromptPreprocessingComplete''),
     (''PluginsChannelSetPromptPreprocessorToServerPacketCompleteDict'',
      ''PromptPreprocessingCompleteDict''),
     (''PluginsChannelSetPromptPreprocessorToServerPacketError'', ''PromptPreprocessingError''),
     (''PluginsChannelSetPromptPreprocessorToServerPacketErrorDict'',
      ''PromptPreprocessingErrorDict''),
     (''LlmRpcGetLoadConfigReturns'', ''SerializedKVConfigSettings''),
     (''LlmRpcGetLoadConfigReturnsDict'', ''SerializedKVConfigSettingsDict'')]"

text \<open>\<^verbatim>\<open>_DATA_MODEL_NAME_OVERRIDES.get(name, None)\<close>, and the name after the override.\<close>

definition override_name :: "string \<Rightarrow> string option" where
  "override_name name = map_of DATA_MODEL_NAME_OVERRIDES name"

definition overridden :: "string \<Rightarrow> string" where
  "overridden name = (case override_name name of None \<Rightarrow> name | Some n \<Rightarrow> n)"

section \<open>The scan of all nodes\<close>

text \<open>
  The loop over \<^verbatim>\<open>ast.walk(model_ast)\<close> changes each \<^verbatim>\<open>Name\<close> and each \<^verbatim>\<open>Constant\<close> node
  in place and on its own, so it is a map over the tree. Only a string constant can equal
  a key of the table.
\<close>

fun rename_expr :: "expr \<Rightarrow> expr" where
  "rename_expr (Name name ctx) = Name (overridden name) ctx"
| "rename_expr (Constant (CStr name)) = Constant (CStr (overridden name))"
| "rename_expr (Constant c) = Constant c"
| "rename_expr (Subscript v s ctx) = Subscript (rename_expr v) (rename_expr s) ctx"
| "rename_expr (Tuple elts ctx) = Tuple (map rename_expr elts) ctx"
| "rename_expr (BinOp l op r) = BinOp (rename_expr l) op (rename_expr r)"
| "rename_expr (OtherExpr cls es) = OtherExpr cls (map rename_expr es)"

fun rename_stmt :: "stmt \<Rightarrow> stmt" where
  "rename_stmt (ClassDef name bases kwds body decorator_list) =
     ClassDef name (map rename_expr bases) (map (\<lambda>(arg, v). (arg, rename_expr v)) kwds)
       (map rename_stmt body) (map rename_expr decorator_list)"
| "rename_stmt (Assign targets v) = Assign (map rename_expr targets) (rename_expr v)"
| "rename_stmt (Expr v) = Expr (rename_expr v)"
| "rename_stmt (OtherStmt cls es body) = OtherStmt cls (map rename_expr es) (map rename_stmt body)"

section \<open>String replacement\<close>

definition startswith :: "string \<Rightarrow> string \<Rightarrow> bool" where
  "startswith s pre = (take (length pre) s = pre)"

text \<open>
  \<^verbatim>\<open>s.replace(old, new)\<close>: the occurrences of \<^verbatim>\<open>old\<close> are replaced from left to right
  without overlap. The counter is the number of characters of a replaced occurrence that
  are still to be skipped. With an empty \<^verbatim>\<open>old\<close>, \<^verbatim>\<open>new\<close> is put around every character.
\<close>

fun replace_from :: "string \<Rightarrow> string \<Rightarrow> nat \<Rightarrow> string \<Rightarrow> string" where
  "replace_from old new k [] = []"
| "replace_from old new (Suc k) (c # cs) = replace_from old new k cs"
| "replace_from old new 0 (c # cs) =
     (if startswith (c # cs) old then new @ replace_from old new (length old - 1) cs
      else c # replace_from old new 0 cs)"

definition str_replace :: "string \<Rightarrow> string \<Rightarrow> string \<Rightarrow> string" where
  "str_replace old new s =
     (if old = [] then new @ concat (map (\<lambda>c. c # new) s) else replace_from old new 0 s)"

section \<open>Walking a union expression\<close>

text \<open>
  \<^verbatim>\<open>ast.walk\<close> yields expressions, operators and expression contexts. It takes the first
  node of a queue, appends that node's children (in the order of its fields) to the queue
  and yields the node.
\<close>

datatype anode = AExpr expr | AOperator operator | AContext expr_context

fun child_nodes :: "anode \<Rightarrow> anode list" where
  "child_nodes (AExpr (Name name ctx)) = [AContext ctx]"
| "child_nodes (AExpr (Constant c)) = []"
| "child_nodes (AExpr (Subscript v s ctx)) = [AExpr v, AExpr s, AContext ctx]"
| "child_nodes (AExpr (Tuple elts ctx)) = map AExpr elts @ [AContext ctx]"
| "child_nodes (AExpr (BinOp l op r)) = [AExpr l, AOperator op, AExpr r]"
| "child_nodes (AExpr (OtherExpr cls es)) = map AExpr es"
| "child_nodes (AOperator op) = []"
| "child_nodes (AContext ctx) = []"

fun node_count :: "expr \<Rightarrow> nat" where
  "node_count (Name name ctx) = 2"
| "node_count (Constant c) = 1"
| "node_count (Subscript v s ctx) = node_count v + node_count s + 2"
| "node_count (Tuple elts ctx) = sum_list (map node_count elts) + 2"
| "node_count (BinOp l op r) = node_count l + node_count r + 2"
| "node_count (OtherExpr cls es) = sum_list (map node_count es) + 1"

fun anode_count :: "anode \<Rightarrow> nat" where
  "anode_count (AExpr e) = node_count e"
| "anode_count (AOperator op) = 1"
| "anode_count (AContext ctx) = 1"

function ast_walk :: "anode list \<Rightarrow> anode list" where
  "ast_walk [] = []"
| "ast_walk (n # todo) = n # ast_walk (todo @ child_nodes n)"
  by pat_completeness auto
termination
proof (relation "measure (\<lambda>todo. sum_list (map anode_count todo))")
  show "wf (measure (\<lambda>todo. sum_list (map anode_count todo)))" by simp
next
  fix n todo
  have "sum_list (map anode_count (child_nodes n)) < anode_count n"
  proof (cases n)
    case (AExpr e)
    then show ?thesis
      by (cases e) (simp_all add: comp_def)
  qed simp_all
  then show "(todo @ child_nodes n, n # todo) \<in> measure (\<lambda>todo. sum_list (map anode_count todo))"
    by simp
qed

section \<open>The scan of the top-level nodes\<close>

text \<open>
  What the loop over \<^verbatim>\<open>model_ast.body\<close> carries along. \<^verbatim>\<open>dict_token_replacements\<close> is only
  ever looked up and assigned by key.
\<close>

record scan_state =
  declared_structs :: "string set"
  dict_token_replacements :: "string \<rightharpoonup> string"
  exported_names :: "string list"
  additional_nodes :: "(nat \<times> stmt) list"

text \<open>What the walk over one union collects.\<close>

record union_info =
  named_union_members :: "string list"
  other_union_members :: "expr list"
  optional_union :: bool
  needs_dict_alias :: bool

text \<open>The \<^verbatim>\<open>match\<close> on one node of the walk; the last case raises RuntimeError.\<close>

fun visit_union_child :: "(string \<rightharpoonup> string) \<Rightarrow> anode \<Rightarrow> union_info \<Rightarrow> error + union_info" where
  "visit_union_child dtr (AExpr (Name name ctx)) u =
     Inr (u\<lparr>named_union_members := named_union_members u @ [name],
            needs_dict_alias := (if \<not> needs_dict_alias u then dtr name \<noteq> None
                                 else needs_dict_alias u)\<rparr>)"
| "visit_union_child dtr (AExpr (Subscript (Name name ctx') s ctx)) u =
     (if name = ''Mapping''
      then Inr (u\<lparr>other_union_members :=
                    other_union_members u @ [Subscript (Name name ctx') s ctx]\<rparr>)
      else Inl RuntimeError)"
| "visit_union_child dtr (AExpr (Constant CNone)) u = Inr (u\<lparr>optional_union := True\<rparr>)"
| "visit_union_child dtr (AExpr (BinOp l BitOr r)) u = Inr u"
| "visit_union_child dtr (AOperator BitOr) u = Inr u"
| "visit_union_child dtr (AContext Load) u = Inr u"
| "visit_union_child dtr (AContext Store) u = Inr u"
| "visit_union_child dtr (AExpr (Tuple [Name a ctx1, Name b ctx2] ctx)) u =
     (if a = ''str'' \<and> b = ''str'' then Inr u else Inl RuntimeError)"
| "visit_union_child dtr n u = Inl RuntimeError"

fun visit_union_children ::
  "(string \<rightharpoonup> string) \<Rightarrow> anode list \<Rightarrow> union_info \<Rightarrow> error + union_info" where
  "visit_union_children dtr [] u = Inr u"
| "visit_union_children dtr (n # ns) u =
     (case visit_union_child dtr n u of
        Inl e \<Rightarrow> Inl e
      | Inr u' \<Rightarrow> visit_union_children dtr ns u')"

definition inspect_union :: "(string \<rightharpoonup> string) \<Rightarrow> expr \<Rightarrow> error + union_info" where
  "inspect_union dtr union_node =
     visit_union_children dtr (ast_walk [AExpr union_node])
       \<lparr>named_union_members = [], other_union_members = [],
        optional_union = False, needs_dict_alias = False\<rparr>"

text \<open>\<^verbatim>\<open>dict_token_replacements.get(member, member)\<close>.\<close>

definition dict_member :: "(string \<rightharpoonup> string) \<Rightarrow> string \<Rightarrow> string" where
  "dict_member dtr member = (case dtr member of None \<Rightarrow> member | Some d \<Rightarrow> d)"

text \<open>
  The union built for the dict alias: the named members in the order of the walk, then
  the \<^verbatim>\<open>Mapping\<close> members, then \<^verbatim>\<open>None\<close> for an optional union.
  \<^verbatim>\<open>named_union_members[0]\<close> raises IndexError on an empty list.
\<close>

definition build_dict_union :: "(string \<rightharpoonup> string) \<Rightarrow> union_info \<Rightarrow> error + expr" where
  "build_dict_union dtr u =
     (case named_union_members u of
        [] \<Rightarrow> Inl IndexError
      | struct_union_member # members \<Rightarrow>
          (let named = foldl (\<lambda>dict_union m. BinOp dict_union BitOr (Name (dict_member dtr m) Load))
                         (Name (dict_member dtr struct_union_member) Load) members;
               with_others = foldl (\<lambda>dict_union other. BinOp dict_union BitOr other)
                               named (other_union_members u)
           in Inr (if optional_union u then BinOp with_others BitOr (Constant CNone)
                   else with_others)))"

text \<open>
  The case \<^verbatim>\<open>ast.Assign(targets=[ast.Name(id=alias)], value=expr)\<close>. \<^verbatim>\<open>is_builtin name\<close>
  stands for \<^verbatim>\<open>hasattr(builtins, name)\<close>, which depends on the interpreter.
\<close>

definition simple_alias_target :: "expr \<Rightarrow> string option" where
  "simple_alias_target e =
     (case e of
        Name name _ \<Rightarrow> Some name
      | Subscript (Name a _) (Tuple (Name name _ # _) _) _ \<Rightarrow>
          if a = ''Annotated'' then Some name else None
      | _ \<Rightarrow> None)"

definition process_alias ::
  "(string \<Rightarrow> bool) \<Rightarrow> nat \<Rightarrow> string \<Rightarrow> expr \<Rightarrow> scan_state \<Rightarrow> error + scan_state" where
  "process_alias is_builtin body_idx alias e st =
     (case simple_alias_target e of
        Some name \<Rightarrow>
          if is_builtin name
          then Inr (st\<lparr>dict_token_replacements := (dict_token_replacements st)(alias \<mapsto> name)\<rparr>)
          else (case dict_token_replacements st name of
                  None \<Rightarrow> Inr st
                | Some dict_name \<Rightarrow>
                    Inr (st\<lparr>dict_token_replacements :=
                               (dict_token_replacements st)(alias \<mapsto> dict_name)\<rparr>))
      | None \<Rightarrow>
          (case e of
             BinOp l BitOr r \<Rightarrow>
               (case inspect_union (dict_token_replacements st) e of
                  Inl err \<Rightarrow> Inl err
                | Inr u \<Rightarrow>
                    if needs_dict_alias u then
                      (let dict_alias = alias @ ''Dict'';
                           dtr = (dict_token_replacements st)(alias \<mapsto> dict_alias)
                       in case build_dict_union dtr u of
                            Inl err \<Rightarrow> Inl err
                          | Inr dict_union \<Rightarrow>
                              Inr (st\<lparr>dict_token_replacements := dtr,
                                      additional_nodes :=
                                        additional_nodes st @
                                          [(body_idx + 1,
                                            Assign [Name dict_alias Store] dict_union)]\<rparr>))
                    else Inr st)
           | _ \<Rightarrow> Inr st))"

text \<open>
  The case \<^verbatim>\<open>ast.ClassDef(name=name)\<close>: the node as it is left, and the new state. The
  docstring of a renamed class whose name ends with \<^verbatim>\<open>Dict\<close> must be the first statement of
  the body, an expression statement holding a string constant.
\<close>

definition fix_docstring :: "string \<Rightarrow> string \<Rightarrow> stmt list \<Rightarrow> error + stmt list" where
  "fix_docstring generated_name name body =
     (case body of
        [] \<Rightarrow> Inl IndexError
      | Expr (Constant (CStr docstring)) # rest \<Rightarrow>
          Inr (Expr (Constant (CStr (str_replace generated_name name docstring))) # rest)
      | _ \<Rightarrow> Inl AssertionError)"

definition process_class ::
  "string \<Rightarrow> expr list \<Rightarrow> (string option \<times> expr) list \<Rightarrow> stmt list \<Rightarrow> expr list \<Rightarrow>
   scan_state \<Rightarrow> error + (stmt \<times> scan_state)" where
  "process_class generated_name bases kwds body decorator_list st =
     (let name = overridden generated_name;
          st1 = st\<lparr>exported_names := exported_names st @ [name]\<rparr>
      in if \<not> endswith name ''Dict''
         then Inr (ClassDef name bases kwds body decorator_list,
                   st1\<lparr>declared_structs := insert name (declared_structs st1)\<rparr>)
         else
           (let struct_name = removesuffix name ''Dict'' in
            if struct_name \<notin> declared_structs st1 then Inl AssertionError
            else
              (let st2 = st1\<lparr>dict_token_replacements :=
                               (dict_token_replacements st1)(struct_name \<mapsto> name)\<rparr>
               in if override_name generated_name \<noteq> None
                  then (case fix_docstring generated_name name body of
                          Inl err \<Rightarrow> Inl err
                        | Inr body' \<Rightarrow> Inr (ClassDef name bases kwds body' decorator_list, st2))
                  else Inr (ClassDef name bases kwds body decorator_list, st2))))"

text \<open>One iteration of the loop over the top-level nodes.\<close>

definition process_top_level ::
  "(string \<Rightarrow> bool) \<Rightarrow> nat \<Rightarrow> stmt \<Rightarrow> scan_state \<Rightarrow> error + (stmt \<times> scan_state)" where
  "process_top_level is_builtin body_idx node st =
     (case node of
        ClassDef name bases kwds body decorator_list \<Rightarrow>
          process_class name bases kwds body decorator_list st
      | Assign [Name alias ctx] e \<Rightarrow>
          (case process_alias is_builtin body_idx alias e st of
             Inl err \<Rightarrow> Inl err
           | Inr st' \<Rightarrow> Inr (node, st'))
      | _ \<Rightarrow> Inr (node, st))"

fun process_body ::
  "(string \<Rightarrow> bool) \<Rightarrow> nat \<Rightarrow> stmt list \<Rightarrow> scan_state \<Rightarrow> error + (stmt list \<times> scan_state)" where
  "process_body is_builtin body_idx [] st = Inr ([], st)"
| "process_body is_builtin body_idx (node # rest) st =
     (case process_top_level is_builtin body_idx node st of
        Inl err \<Rightarrow> Inl err
      | Inr (node', st') \<Rightarrow>
          (case process_body is_builtin (Suc body_idx) rest st' of
             Inl err \<Rightarrow> Inl err
           | Inr (rest', st'') \<Rightarrow> Inr (node' # rest', st'')))"

text \<open>
  \<^verbatim>\<open>for insertion_idx, node in reversed(additional_nodes):
      model_ast.body[insertion_idx:insertion_idx] = (node,)\<close>
\<close>

fun insert_nodes :: "(nat \<times> stmt) list \<Rightarrow> stmt list \<Rightarrow> stmt list" where
  "insert_nodes [] body = body"
| "insert_nodes ((insertion_idx, node) # rest) body =
     insert_nodes rest (take insertion_idx body @ [node] @ drop insertion_idx body)"

definition initial_scan_state :: scan_state where
  "initial_scan_state =
     \<lparr>declared_structs = {}, dict_token_replacements = Map.empty,
      exported_names = [], additional_nodes = []\<rparr>"

text \<open>
  The tree-level post-processing of the parsed module body: both scans and the insertion
  of the additional nodes. It returns the final body and the state of the second scan.
\<close>

definition rewrite_tree ::
  "(string \<Rightarrow> bool) \<Rightarrow> stmt list \<Rightarrow> error + (stmt list \<times> scan_state)" where
  "rewrite_tree is_builtin body =
     (case process_body is_builtin 0 (map rename_stmt body) initial_scan_state of
        Inl err \<Rightarrow> Inl err
      | Inr (body', st) \<Rightarrow> Inr (insert_nodes (rev (additional_nodes st)) body', st))"

section \<open>The token-level rewrite\<close>

text \<open>
  A token of \<^verbatim>\<open>tokenize\<close> as far as the loop reads it: its type and its string. The loop
  tests for \<^verbatim>\<open>NAME\<close> and \<^verbatim>\<open>DEDENT\<close> only.
\<close>

datatype token_type =
    NAME | NUMBER | STRING | OP | NEWLINE | NL | INDENT | DEDENT | COMMENT | ENCODING | ENDMARKER

type_synonym token = "token_type \<times> string"

text \<open>
  The loop over \<^verbatim>\<open>model_tokens\<close>, with its two flags, returning \<^verbatim>\<open>updated_tokens\<close>. The
  \<^verbatim>\<open>assert\<close> on the token after \<^verbatim>\<open>class\<close> raises AssertionError.
\<close>

fun rewrite_tokens ::
  "(string \<rightharpoonup> string) \<Rightarrow> bool \<Rightarrow> bool \<Rightarrow> token list \<Rightarrow> error + token list" where
  "rewrite_tokens dtr checking_class_header processing_typed_dict [] = Inr []"
| "rewrite_tokens dtr checking_class_header processing_typed_dict ((token_type, token) # rest) =
     (if checking_class_header then
        (if token_type \<noteq> NAME then Inl AssertionError
         else
           (case rewrite_tokens dtr False
                   (if endswith token ''Dict'' then True else processing_typed_dict) rest of
              Inl e \<Rightarrow> Inl e
            | Inr updated \<Rightarrow> Inr ((token_type, token) # updated)))
      else if processing_typed_dict then
        (if token_type = DEDENT then
           (case rewrite_tokens dtr False False rest of
              Inl e \<Rightarrow> Inl e
            | Inr updated \<Rightarrow> Inr ((token_type, token) # updated))
         else if token_type = NAME then
           (case rewrite_tokens dtr False True rest of
              Inl e \<Rightarrow> Inl e
            | Inr updated \<Rightarrow> Inr ((token_type, dict_member dtr token) # updated))
         else
           (case rewrite_tokens dtr False True rest of
              Inl e \<Rightarrow> Inl e
            | Inr updated \<Rightarrow> Inr ((token_type, token) # updated)))
      else
        (case rewrite_tokens dtr (token_type = NAME \<and> token = ''class'') False rest of
           Inl e \<Rightarrow> Inl e
         | Inr updated \<Rightarrow> Inr ((token_type, token) # updated)))"

section \<open>The export list\<close>

definition name_line :: "string \<Rightarrow> string" where
  "name_line name = ''    '' @ [CHR 0x22] @ name @ [CHR 0x22] @ '',''"

definition lines_to_insert :: "string list \<Rightarrow> string list" where
  "lines_to_insert names = [''__all__ = [''] @ map name_line (sort names) @ ['']'', [], []]"

text \<open>
  The value of \<^verbatim>\<open>idx\<close> after the loop over the lines: the index of the first line that
  starts with \<^verbatim>\<open>class\<close>, the last index if there is none, and unbound for no lines.
\<close>

fun class_line_index :: "string list \<Rightarrow> nat option" where
  "class_line_index [] = None"
| "class_line_index (line # lines) =
     (if startswith line ''class'' then Some 0
      else (case lines of
              [] \<Rightarrow> Some 0
            | _ \<Rightarrow> map_option Suc (class_line_index lines)))"

text \<open>
  The lines of the written file, given the exported names and the lines of the updated
  source (\<^verbatim>\<open>updated_source.splitlines()\<close>).
\<close>

definition insert_all :: "string list \<Rightarrow> string list \<Rightarrow> error + string list" where
  "insert_all names updated_source_lines =
     (case class_line_index updated_source_lines of
        None \<Rightarrow> Inl UnboundLocalError
      | Some idx \<Rightarrow>
          Inr (take idx updated_source_lines @ lines_to_insert names @
               drop idx updated_source_lines))"

section \<open>Properties of the post-processing: auxiliary notions\<close>

text \<open>The final body, and the exported names, of the tree-level post-processing.\<close>

definition tree_body :: "(string \<Rightarrow> bool) \<Rightarrow> stmt list \<Rightarrow> error + stmt list" where
  "tree_body is_builtin body =
     (case rewrite_tree is_builtin body of Inl e \<Rightarrow> Inl e | Inr (body', st) \<Rightarrow> Inr body')"

definition tree_exports :: "(string \<Rightarrow> bool) \<Rightarrow> stmt list \<Rightarrow> error + string list" where
  "tree_exports is_builtin body =
     (case rewrite_tree is_builtin body of
        Inl e \<Rightarrow> Inl e
      | Inr (body', st) \<Rightarrow> Inr (exported_names st))"

text \<open>
  The identifiers of the \<^verbatim>\<open>Name\<close> nodes and the values of the string constants of a tree,
  in the order of the source.
\<close>

fun expr_names :: "expr \<Rightarrow> string list" where
  "expr_names (Name name ctx) = [name]"
| "expr_names (Constant c) = []"
| "expr_names (Subscript v s ctx) = expr_names v @ expr_names s"
| "expr_names (Tuple elts ctx) = concat (map expr_names elts)"
| "expr_names (BinOp l op r) = expr_names l @ expr_names r"
| "expr_names (OtherExpr cls es) = concat (map expr_names es)"

fun expr_strings :: "expr \<Rightarrow> string list" where
  "expr_strings (Name name ctx) = []"
| "expr_strings (Constant (CStr s)) = [s]"
| "expr_strings (Constant c) = []"
| "expr_strings (Subscript v s ctx) = expr_strings v @ expr_strings s"
| "expr_strings (Tuple elts ctx) = concat (map expr_strings elts)"
| "expr_strings (BinOp l op r) = expr_strings l @ expr_strings r"
| "expr_strings (OtherExpr cls es) = concat (map expr_strings es)"

fun stmt_names :: "stmt \<Rightarrow> string list" where
  "stmt_names (ClassDef name bases kwds body decorator_list) =
     concat (map expr_names bases) @ concat (map (\<lambda>(arg, v). expr_names v) kwds) @
     concat (map stmt_names body) @ concat (map expr_names decorator_list)"
| "stmt_names (Assign targets v) = concat (map expr_names targets) @ expr_names v"
| "stmt_names (Expr v) = expr_names v"
| "stmt_names (OtherStmt cls es body) = concat (map expr_names es) @ concat (map stmt_names body)"

fun stmt_strings :: "stmt \<Rightarrow> string list" where
  "stmt_strings (ClassDef name bases kwds body decorator_list) =
     concat (map expr_strings bases) @ concat (map (\<lambda>(arg, v). expr_strings v) kwds) @
     concat (map stmt_strings body) @ concat (map expr_strings decorator_list)"
| "stmt_strings (Assign targets v) = concat (map expr_strings targets) @ expr_strings v"
| "stmt_strings (Expr v) = expr_strings v"
| "stmt_strings (OtherStmt cls es body) = concat (map expr_strings es) @ concat (map stmt_strings body)"

definition module_names :: "stmt list \<Rightarrow> string list" where
  "module_names body = concat (map stmt_names body)"

definition module_strings :: "stmt list \<Rightarrow> string list" where
  "module_strings body = concat (map stmt_strings body)"

text \<open>The names of the top-level class definitions of a body, in order.\<close>

fun class_names :: "stmt list \<Rightarrow> string list" where
  "class_names [] = []"
| "class_names (ClassDef name bases kwds body decorator_list # rest) = name # class_names rest"
| "class_names (node # rest) = class_names rest"

text \<open>The top-level class definitions of a body, in order.\<close>

fun class_stmts :: "stmt list \<Rightarrow> stmt list" where
  "class_stmts [] = []"
| "class_stmts (ClassDef name bases kwds body decorator_list # rest) =
     ClassDef name bases kwds body decorator_list # class_stmts rest"
| "class_stmts (node # rest) = class_stmts rest"

text \<open>
  What the scan of the top-level nodes may do to a class definition \<^verbatim>\<open>node\<close>, leaving
  \<^verbatim>\<open>node'\<close>. The class takes the name that the override table gives it. If it was renamed
  and its new name ends with \<^verbatim>\<open>Dict\<close>, its body begins with a docstring, and that string
  constant is the only part that may differ; any other class is unchanged apart from its
  name.
\<close>

definition class_repaired :: "stmt \<Rightarrow> stmt \<Rightarrow> bool" where
  "class_repaired node node' =
     (case node of
        ClassDef generated_name bases kwds class_body decorator_list \<Rightarrow>
          if endswith (overridden generated_name) ''Dict'' \<and> override_name generated_name \<noteq> None
          then (\<exists>docstring docstring' rest.
                  class_body = Expr (Constant (CStr docstring)) # rest \<and>
                  node' = ClassDef (overridden generated_name) bases kwds
                            (Expr (Constant (CStr docstring')) # rest) decorator_list)
          else node' = ClassDef (overridden generated_name) bases kwds class_body decorator_list
      | _ \<Rightarrow> False)"

fun is_assign :: "stmt \<Rightarrow> bool" where
  "is_assign (Assign targets v) = True"
| "is_assign node = False"

text \<open>A \<^verbatim>\<open>NAME\<close> token with its string looked up in the replacements.\<close>

definition subst_token :: "(string \<rightharpoonup> string) \<Rightarrow> token \<Rightarrow> token" where
  "subst_token dtr t = (if fst t = NAME then (NAME, dict_member dtr (snd t)) else t)"

text \<open>The identifiers below a node of the walk.\<close>

fun anode_names :: "anode \<Rightarrow> string set" where
  "anode_names (AExpr e) = set (expr_names e)"
| "anode_names (AOperator op) = {}"
| "anode_names (AContext ctx) = {}"

text \<open>Every name and every other member that a walk has collected comes from \<^verbatim>\<open>S\<close>.\<close>

definition union_names_within :: "string set \<Rightarrow> union_info \<Rightarrow> bool" where
  "union_names_within S u =
     (set (named_union_members u) \<subseteq> S \<and>
      (\<forall>other \<in> set (other_union_members u). set (expr_names other) \<subseteq> S))"

text \<open>
  No key of the override table among the replacements, the identifiers of the
  additional nodes and the exported names.
\<close>

definition scan_inv :: "scan_state \<Rightarrow> bool" where
  "scan_inv st =
     ((\<forall>k v. dict_token_replacements st k = Some v \<longrightarrow> override_name v = None) \<and>
      (\<forall>n \<in> set (additional_nodes st). \<forall>x \<in> set (stmt_names (snd n)). override_name x = None) \<and>
      (\<forall>x \<in> set (exported_names st). override_name x = None))"

subsection \<open>Example modules\<close>

text \<open>
  \<^verbatim>\<open>class LlmRpcGetLoadConfigReturns(LMStudioStruct, kw_only=True):
      """Settings held by LlmRpcGetLoadConfigReturns."""
      fields: int\<close>
  and its mirror \<^verbatim>\<open>class LlmRpcGetLoadConfigReturnsDict(TypedDict)\<close>.
\<close>

definition example_struct :: stmt where
  "example_struct =
     ClassDef ''LlmRpcGetLoadConfigReturns'' [Name ''LMStudioStruct'' Load]
       [(Some ''kw_only'', Constant (COther ''True''))]
       [Expr (Constant (CStr ''Settings held by LlmRpcGetLoadConfigReturns.'')),
        OtherStmt ''AnnAssign'' [Name ''fields'' Store, Name ''int'' Load] []]
       []"

definition example_mirror :: stmt where
  "example_mirror =
     ClassDef ''LlmRpcGetLoadConfigReturnsDict'' [Name ''TypedDict'' Load] []
       [Expr (Constant (CStr ''Dict form, see LlmRpcGetLoadConfigReturnsDict.'')),
        OtherStmt ''AnnAssign'' [Name ''fields'' Store, Name ''int'' Load] []]
       []"

text \<open>A mirror class whose docstring refers to the structured class by its generated name.\<close>

definition example_mirror_for :: stmt where
  "example_mirror_for =
     ClassDef ''LlmRpcGetLoadConfigReturnsDict'' [Name ''TypedDict'' Load] []
       [Expr (Constant (CStr ''Corresponding typed dictionary definition for LlmRpcGetLoadConfigReturns.'')),
        OtherStmt ''AnnAssign'' [Name ''fields'' Store, Name ''int'' Load] []]
       []"

text \<open>
  \<^verbatim>\<open>ModelKey = str\<close>, a struct \<^verbatim>\<open>Foo\<close> and its mirror \<^verbatim>\<open>FooDict\<close>, and
  \<^verbatim>\<open>Settings = Foo | Mapping[str, str]\<close>.
\<close>

definition example_alias :: stmt where
  "example_alias = Assign [Name ''ModelKey'' Store] (Name ''str'' Load)"

definition example_foo :: stmt where
  "example_foo =
     ClassDef ''Foo'' [Name ''LMStudioStruct'' Load] []
       [OtherStmt ''AnnAssign'' [Name ''key'' Store, Name ''ModelKey'' Load] []] []"

definition example_foo_dict :: stmt where
  "example_foo_dict =
     ClassDef ''FooDict'' [Name ''TypedDict'' Load] []
       [OtherStmt ''AnnAssign'' [Name ''key'' Store, Name ''ModelKey'' Load] []] []"

definition example_union_alias :: stmt where
  "example_union_alias =
     Assign [Name ''Settings'' Store]
       (BinOp (Name ''Foo'' Load) BitOr
          (Subscript (Name ''Mapping'' Load)
             (Tuple [Name ''str'' Load, Name ''str'' Load] Load) Load))"

text \<open>\<^verbatim>\<open>hasattr(builtins, name)\<close> as far as the examples need it.\<close>

definition example_builtin :: "string \<Rightarrow> bool" where
  "example_builtin name = (name \<in> set [''str'', ''int'', ''float'', ''bool'', ''list'', ''dict''])"

text \<open>
  \<^verbatim>\<open>class Wrapper:
      class ChatMessageData:
          pass\<close>
\<close>

definition example_nested :: stmt where
  "example_nested =
     ClassDef ''Wrapper'' [] []
       [ClassDef ''ChatMessageData'' [] [] [OtherStmt ''Pass'' [] []] []] []"

text \<open>
  \<^verbatim>\<open>History = ChatMessageData | None\<close> and \<^verbatim>\<open>class ChatMessageDataUser: "ChatMessageData"\<close>
\<close>

definition example_rename_module :: "stmt list" where
  "example_rename_module =
     [Assign [Name ''History'' Store]
        (BinOp (Name ''ChatMessageData'' Load) BitOr (Constant CNone)),
      ClassDef ''ChatMessageDataUser'' [] []
        [Expr (Constant (CStr ''ChatMessageData''))] []]"

text \<open>
  The tokens of
  \<^verbatim>\<open>class FooDict(Foo):
      key: ModelKey\<close>
\<close>

definition example_tokens :: "token list" where
  "example_tokens =
     [(NAME, ''class''), (NAME, ''FooDict''), (OP, ''(''), (NAME, ''Foo''), (OP, '')''),
      (OP, '':''), (NEWLINE, [CHR 0x0A]), (INDENT, ''    ''),
      (NAME, ''key''), (OP, '':''), (NAME, ''ModelKey''), (NEWLINE, [CHR 0x0A]),
      (DEDENT, []), (ENDMARKER, [])]"

definition example_replacements :: "string \<rightharpoonup> string" where
  "example_replacements = [''Foo'' \<mapsto> ''FooDict'', ''ModelKey'' \<mapsto> ''str'']"

section \<open>Facts about dicts and paths\<close>

lemma dget_dupd_same: "dget k (dupd k g d) = map_option g (dget k d)"
  by (induction d) (auto simp: dget_def)

lemma dget_dupd_other: "k' \<noteq> k \<Longrightarrow> dget k' (dupd k g d) = dget k' d"
  by (induction d) (auto simp: dget_def)

lemma dupd_id: "dget k d = Some t \<Longrightarrow> g t = t \<Longrightarrow> dupd k g d = d"
  by (induction d) (auto simp: dget_def split: if_splits)

lemma dget_dset_same: "dget k (dset k v d) = Some v"
  by (induction d) (auto simp: dget_def)

lemma dget_dset_other: "k' \<noteq> k \<Longrightarrow> dget k' (dset k v d) = dget k' d"
  by (induction d) (auto simp: dget_def)

lemma walk_ref_upd_at_same:
  "walk_ref doc path = Inr v \<Longrightarrow> walk_ref (upd_at path f doc) path = Inr (f v)"
proof (induction path arbitrary: doc)
  case Nil
  then show ?case by simp
next
  case (Cons p ps)
  then show ?case
    by (auto simp: py_subscript_def dget_dupd_same split: json.splits option.splits sum.splits)
qed

lemma upd_at_const_id: "walk_ref doc path = Inr v \<Longrightarrow> upd_at path (\<lambda>_. v) doc = doc"
proof (induction path arbitrary: doc)
  case Nil
  then show ?case by simp
next
  case (Cons p ps)
  then show ?case
    by (auto simp: py_subscript_def intro!: dupd_id split: json.splits option.splits sum.splits)
qed

lemma resolve_members_dicts:
  "resolve_members doc ms = Inr members \<Longrightarrow> \<forall>m \<in> set ms. \<exists>d. m = JDict d"
  by (induction ms arbitrary: members) (auto split: json.splits if_splits sum.splits simp: Let_def)

section \<open>The discriminator detector\<close>

lemma check_discriminator_Cons:
  "check_discriminator tag_field (entry # rest) = Inr True \<longleftrightarrow>
     declares_tag tag_field entry \<and> check_discriminator tag_field rest = Inr True"
  by (auto simp: declares_tag_def py_get_def split: json.split option.split)

text \<open>
  The detector answers \<^verbatim>\<open>True\<close> exactly when every member declares the tag field as a
  string property with a constant.
\<close>

lemma check_discriminator_True_iff:
  "check_discriminator tag_field union_array = Inr True \<longleftrightarrow>
     (\<forall>entry \<in> set union_array. declares_tag tag_field entry)"
  by (induction union_array) (simp_all add: check_discriminator_Cons del: check_discriminator.simps(2))

lemma lacks_tag_not_declares: "lacks_tag tag_field entry \<Longrightarrow> \<not> declares_tag tag_field entry"
  by (auto simp: lacks_tag_def declares_tag_def split: json.splits option.splits)

text \<open>So a union with a member that lacks the tag field is never accepted.\<close>

lemma check_discriminator_lacking_member:
  "entry \<in> set union_array \<Longrightarrow> lacks_tag tag_field entry \<Longrightarrow>
   check_discriminator tag_field union_array \<noteq> Inr True"
  using lacks_tag_not_declares by (auto simp: check_discriminator_True_iff)

text \<open>
  C2. The claim says that the detector returns false for every candidate as soon as one
  member lacks the tag field. For the members
  \<^verbatim>\<open>[{"properties": {"type": {"$ref": "#/definitions/kind"}}}, {"properties": {}}]\<close>
  the second member lacks every candidate, yet for the candidate \<^verbatim>\<open>"type"\<close> the detector
  does not return: the first member's property has no \<^verbatim>\<open>"type"\<close> entry and
  \<^verbatim>\<open>field_def["type"]\<close> raises KeyError.
\<close>

theorem check_discriminator_untyped_tag_raises:
  "lacks_tag ''type'' (obj [(''properties'', obj [])]) \<and>
   check_discriminator ''type''
     [obj [(''properties'', obj [(''type'', obj [(''$ref'', JStr ''#/definitions/kind'')])])],
      obj [(''properties'', obj [])]] = Inl KeyError"
  by (simp add: obj_def lacks_tag_def py_get_def dget_def)

section \<open>The optional-result rewrite\<close>

lemma extract_undiscriminated_returns:
  assumes "walk_ref doc path = Inr (JDict spec)"
    and "dget ''anyOf'' spec = Some (JList union_members)"
    and "resolve_members doc union_members = Inr members"
    and "find_discriminator POTENTIAL_TAG_FIELDS (map snd members) = Inr None"
    and "endswith name ''/returns''"
  shows "extract_union_variants doc name path =
      (case process_rpc_result_union name spec of
         Inl e \<Rightarrow> Inl e
       | Inr (s', r) \<Rightarrow> Inr (upd_at path (\<lambda>_. JDict s') doc, r))"
  using assms by (simp add: extract_union_variants_def py_subscript_def)

lemma is_void_union_payload:
  "allows_omission Y \<Longrightarrow> \<not> allows_omission X \<Longrightarrow>
   union_members = [Y, X] \<or> union_members = [X, Y] \<Longrightarrow>
   is_void_union union_members = X"
  by auto

lemma is_void_union_none:
  "\<not> (\<exists>X Y. allows_omission Y \<and> \<not> allows_omission X \<and>
                 (union_members = [Y, X] \<or> union_members = [X, Y])) \<Longrightarrow>
   is_void_union union_members = JNull"
  by (cases union_members rule: is_void_union.cases) auto

lemma process_rpc_rewrite:
  "dget ''anyOf'' spec = Some (JList union_members) \<Longrightarrow>
   is_void_union union_members = JDict d \<Longrightarrow>
   process_rpc_result_union name spec =
     Inr (dset ''anyOf''
            (JList [ref_to (''#/definitions/'' @ removesuffix name ''/returns'' @ ''ReturnValue''),
                    null_spec]) spec,
          JDict [(JStr (removesuffix name ''/returns'' @ ''ReturnValue''), JDict d)])"
  by (simp add: process_rpc_result_union_def Let_def)

lemma process_rpc_unchanged:
  "dget ''anyOf'' spec = Some (JList union_members) \<Longrightarrow>
   is_void_union union_members = JNull \<Longrightarrow>
   process_rpc_result_union name spec = Inr (spec, JNull)"
  by (simp add: process_rpc_result_union_def)

text \<open>
  C1. Take a union at \<^verbatim>\<open>path\<close> whose name ends with \<^verbatim>\<open>"/returns"\<close>, whose members resolve
  and for which no candidate tag field is a discriminator. If it has exactly two members,
  one of them (\<^verbatim>\<open>Y\<close>) a "no value" encoding and the other (\<^verbatim>\<open>X\<close>) not, in either order,
  then its \<^verbatim>\<open>anyOf\<close> list becomes the reference to \<^verbatim>\<open><prefix>ReturnValue\<close> followed by the
  null schema, and the definition \<^verbatim>\<open><prefix>ReturnValue\<close> = \<^verbatim>\<open>X\<close> is returned. In every
  other case (both members are "no value" encodings, neither is, or the union does not
  have two members) the document is unchanged and \<^verbatim>\<open>None\<close> is returned.
\<close>

theorem optional_result_rewrite:
  assumes spec: "walk_ref doc path = Inr (JDict spec)"
    and members: "dget ''anyOf'' spec = Some (JList union_members)"
    and resolved: "resolve_members doc union_members = Inr members"
    and undiscriminated: "find_discriminator POTENTIAL_TAG_FIELDS (map snd members) = Inr None"
    and returns: "endswith name ''/returns''"
  shows "(\<forall>X Y. allows_omission Y \<and> \<not> allows_omission X \<and>
                 (union_members = [Y, X] \<or> union_members = [X, Y]) \<longrightarrow>
            extract_union_variants doc name path =
              Inr (upd_at path
                     (\<lambda>_. JDict (dset ''anyOf''
                        (JList [ref_to (''#/definitions/'' @ removesuffix name ''/returns'' @ ''ReturnValue''),
                                null_spec]) spec)) doc,
                   JDict [(JStr (removesuffix name ''/returns'' @ ''ReturnValue''), X)]))
       \<and> (\<not> (\<exists>X Y. allows_omission Y \<and> \<not> allows_omission X \<and>
                 (union_members = [Y, X] \<or> union_members = [X, Y])) \<longrightarrow>
            extract_union_variants doc name path = Inr (doc, JNull))"
proof -
  note unfold = extract_undiscriminated_returns [OF spec members resolved undiscriminated returns]
  have same: "upd_at path (\<lambda>_. JDict spec) doc = doc"
    using spec by (rule upd_at_const_id)
  have rewrite: "extract_union_variants doc name path =
              Inr (upd_at path
                     (\<lambda>_. JDict (dset ''anyOf''
                        (JList [ref_to (''#/definitions/'' @ removesuffix name ''/returns'' @ ''ReturnValue''),
                                null_spec]) spec)) doc,
                   JDict [(JStr (removesuffix name ''/returns'' @ ''ReturnValue''), X)])"
    if h: "allows_omission Y \<and> \<not> allows_omission X \<and>
               (union_members = [Y, X] \<or> union_members = [X, Y])" for X Y
  proof -
    have "X \<in> set union_members" using h by auto
    then obtain d where X: "X = JDict d"
      using resolve_members_dicts [OF resolved] by blast
    have "is_void_union union_members = JDict d"
      using is_void_union_payload [of Y X union_members] h X by simp
    from process_rpc_rewrite [OF members this, of name] show ?thesis
      by (simp add: unfold X)
  qed
  have unchanged: "extract_union_variants doc name path = Inr (doc, JNull)"
    if n: "\<not> (\<exists>X Y. allows_omission Y \<and> \<not> allows_omission X \<and>
                 (union_members = [Y, X] \<or> union_members = [X, Y]))"
  proof -
    from process_rpc_unchanged [OF members is_void_union_none [OF n], of name] show ?thesis
      by (simp add: unfold same)
  qed
  from rewrite unchanged show ?thesis by blast
qed

theorem optional_result_rewrite_witness:
  "extract_union_variants example_returns_doc ''Foo/returns'' [''definitions'', ''Foo/returns''] =
     Inr (obj [(''definitions'',
                obj [(''Foo/returns'',
                      obj [(''anyOf'',
                            JList [obj [(''$ref'', JStr ''#/definitions/FooReturnValue'')],
                                   obj [(''type'', JStr ''null'')]])])])],
          obj [(''FooReturnValue'', obj [(''type'', JStr ''string'')])])"
proof -
  have h1: "walk_ref example_returns_doc [''definitions'', ''Foo/returns''] =
      Inr (JDict [(JStr ''anyOf'', JList [void_spec, obj [(''type'', JStr ''string'')]])])"
    by (simp add: example_returns_doc_def obj_def py_subscript_def dget_def)
  have h2: "dget ''anyOf'' [(JStr ''anyOf'', JList [void_spec, obj [(''type'', JStr ''string'')]])] =
      Some (JList [void_spec, obj [(''type'', JStr ''string'')]])"
    by (simp add: dget_def)
  have h3: "resolve_members example_returns_doc [void_spec, obj [(''type'', JStr ''string'')]] =
      Inr [(Anonymous void_spec, void_spec),
           (Anonymous (obj [(''type'', JStr ''string'')]), obj [(''type'', JStr ''string'')])]"
    by (simp add: void_spec_def obj_def py_get_def dget_def truthy_def)
  have h4: "find_discriminator POTENTIAL_TAG_FIELDS
        (map snd [(Anonymous void_spec, void_spec),
           (Anonymous (obj [(''type'', JStr ''string'')]), obj [(''type'', JStr ''string'')])]) = Inr None"
    by (simp add: POTENTIAL_TAG_FIELDS_def void_spec_def py_get_def dget_def)
  have h5: "endswith ''Foo/returns'' ''/returns''"
    by (simp add: endswith_def)
  have h6: "allows_omission void_spec \<and> \<not> allows_omission (obj [(''type'', JStr ''string'')]) \<and>
      ([void_spec, obj [(''type'', JStr ''string'')]] = [void_spec, obj [(''type'', JStr ''string'')]] \<or>
       [void_spec, obj [(''type'', JStr ''string'')]] = [obj [(''type'', JStr ''string'')], void_spec])"
    by (simp add: allows_omission_def void_spec_def null_spec_def obj_def)
  have name: "removesuffix ''Foo/returns'' ''/returns'' @ ''ReturnValue'' = ''FooReturnValue''"
    by (simp add: removesuffix_def endswith_def)
  from optional_result_rewrite [OF h1 h2 h3 h4 h5] h6
  have "extract_union_variants example_returns_doc ''Foo/returns'' [''definitions'', ''Foo/returns''] =
      Inr (upd_at [''definitions'', ''Foo/returns'']
             (\<lambda>_. JDict (dset ''anyOf''
                (JList [ref_to (''#/definitions/'' @ removesuffix ''Foo/returns'' ''/returns'' @ ''ReturnValue''),
                        null_spec])
                [(JStr ''anyOf'', JList [void_spec, obj [(''type'', JStr ''string'')]])]))
             example_returns_doc,
           JDict [(JStr (removesuffix ''Foo/returns'' ''/returns'' @ ''ReturnValue''),
                   obj [(''type'', JStr ''string'')])])"
    by blast
  then show ?thesis
    by (simp add: name example_returns_doc_def obj_def ref_to_def null_spec_def)
qed

section \<open>The definitions mapping keeps its keys during inference\<close>












section \<open>The excluded definitions\<close>













section \<open>Tag-field defaults of the variants of a discriminated union\<close>


lemma dget_setdefault_same:
  "dget k (setdefault k v d) = Some (case dget k d of None \<Rightarrow> v | Some old \<Rightarrow> old)"
  by (simp add: setdefault_def dget_dset_same split: option.splits)

lemma dget_setdefault_other: "k' \<noteq> k \<Longrightarrow> dget k' (setdefault k v d) = dget k' d"
  by (simp add: setdefault_def dget_dset_other split: option.splits)

lemma set_tag_defaults_applied:
  "dget ''const'' ts = Some c \<Longrightarrow>
   \<exists>ts'. set_tag_defaults c (capitalize disc) (JDict ts) = JDict ts' \<and> defaults_applied disc c ts ts'"
  by (simp add: set_tag_defaults_def defaults_applied_def dget_setdefault_same dget_setdefault_other)

lemma py_subscript_Inr: "py_subscript x k = Inr v \<Longrightarrow> \<exists>d. x = JDict d \<and> dget k d = Some v"
  by (auto simp: py_subscript_def split: json.splits option.splits)

text \<open>How an update at one path of the document shows at another path.\<close>

lemma kept_refl: "kept x x"
  by (simp add: kept_def)

lemma kept_trans: "kept x y \<Longrightarrow> kept y z \<Longrightarrow> kept x z"
  by (auto simp: kept_def split: if_splits)

lemma kept_dict: "kept (JDict d) (JDict d')"
  by (simp add: kept_def hashable_def)

lemma kept_hashable: "kept x y \<Longrightarrow> hashable x \<Longrightarrow> y = x"
  by (simp add: kept_def)

lemma kept_hashable_rev: "kept x y \<Longrightarrow> hashable y \<Longrightarrow> y = x"
  by (auto simp: kept_def split: if_splits)

lemma upd_at_keeps:
  assumes f: "keeps_lookups K f"
  shows "walk_ref doc t = Inr x \<Longrightarrow> \<forall>k rest. k \<in> K \<longrightarrow> t \<noteq> p @ k # rest \<Longrightarrow>
         \<exists>x'. walk_ref (upd_at p f doc) t = Inr x' \<and> kept x x'"
proof (induction p arbitrary: doc t)
  case Nil
  show ?case
  proof (cases t)
    case Nil
    with Nil.prems(1) f show ?thesis by (simp add: keeps_lookups_def)
  next
    case (Cons k rest)
    with Nil.prems have "k \<notin> K" by auto
    with f Nil.prems(1) Cons show ?thesis
      unfolding keeps_lookups_def by (simp only: upd_at.simps) blast
  qed
next
  case (Cons a ps)
  show ?case
  proof (cases doc)
    case (JDict d)
    show ?thesis
    proof (cases t)
      case Nil
      with Cons.prems(1) JDict have "x = JDict d" by simp
      with JDict Nil show ?thesis by (simp add: kept_dict)
    next
      case (Cons b ts)
      show ?thesis
      proof (cases "b = a")
        case False
        with Cons.prems(1) JDict Cons show ?thesis
          by (auto simp: py_subscript_def dget_dupd_other kept_refl split: option.splits)
      next
        case True
        from Cons.prems(1) JDict \<open>t = b # ts\<close> True obtain v where
          v: "dget a d = Some v" "walk_ref v ts = Inr x"
          by (auto simp: py_subscript_def split: option.splits)
        have "\<forall>k rest. k \<in> K \<longrightarrow> ts \<noteq> ps @ k # rest"
          using Cons.prems(2) \<open>t = b # ts\<close> True by auto
        from Cons.IH [OF v(2) this] obtain x' where
          "walk_ref (upd_at ps f v) ts = Inr x'" "kept x x'" by blast
        with v JDict \<open>t = b # ts\<close> True show ?thesis
          by (auto simp: py_subscript_def dget_dupd_same)
      qed
    qed
  qed (use Cons.prems(1) in \<open>auto simp: kept_refl\<close>)
qed

lemma upd_at_no_new:
  assumes f: "no_new_lookups C f"
  shows "walk_ref (upd_at p f doc) t = Inr x \<Longrightarrow>
         (\<exists>y. walk_ref doc t = Inr y) \<or> (\<exists>s \<in> C. t = p @ s)"
proof (induction p arbitrary: doc t)
  case Nil
  show ?case
  proof (cases t)
    case Nil
    then show ?thesis by simp
  next
    case (Cons k rest)
    with f Nil.prems show ?thesis
      unfolding no_new_lookups_def by (simp only: upd_at.simps append_Nil) blast
  qed
next
  case (Cons a ps)
  show ?case
  proof (cases doc)
    case (JDict d)
    show ?thesis
    proof (cases t)
      case Nil
      then show ?thesis by simp
    next
      case (Cons b ts)
      show ?thesis
      proof (cases "b = a")
        case False
        with Cons.prems JDict Cons show ?thesis
          by (auto simp: py_subscript_def dget_dupd_other split: option.splits)
      next
        case True
        from Cons.prems JDict \<open>t = b # ts\<close> True obtain v where
          v: "dget a d = Some v" "walk_ref (upd_at ps f v) ts = Inr x"
          by (auto simp: py_subscript_def dget_dupd_same split: option.splits)
        from Cons.IH [OF v(2)] v(1) JDict \<open>t = b # ts\<close> True show ?thesis
          by (auto simp: py_subscript_def)
      qed
    qed
  qed (use Cons.prems in \<open>auto\<close>)
qed

text \<open>The three in-place updates of the extraction.\<close>

lemma dget_setdefault_present: "dget k d = Some t \<Longrightarrow> dget k (setdefault k' v d) = Some t"
  by (cases "k = k'") (simp_all add: dget_setdefault_same dget_setdefault_other)

lemma set_tag_defaults_keeps: "keeps_lookups {} (set_tag_defaults c T)"
proof -
  have a: "kept v (set_tag_defaults c T v)" for v
    by (cases v) (simp_all add: set_tag_defaults_def kept_refl kept_dict)
  have b: "\<exists>x'. walk_ref (set_tag_defaults c T v) (k # rest) = Inr x' \<and> kept x x'"
    if "walk_ref v (k # rest) = Inr x" for v k rest x
  proof (cases v)
    case (JDict d)
    from that JDict obtain t where t: "dget k d = Some t" "walk_ref t rest = Inr x"
      by (auto simp: py_subscript_def split: option.splits)
    have "dget k (setdefault ''title'' (JStr T) (setdefault ''default'' c d)) = Some t"
      using t(1) by (simp add: dget_setdefault_present)
    with t(2) JDict show ?thesis
      by (auto simp: set_tag_defaults_def py_subscript_def kept_refl)
  qed (use that in \<open>auto simp: set_tag_defaults_def kept_refl\<close>)
  show ?thesis unfolding keeps_lookups_def using a b by blast
qed

lemma walk_ref_atom: "hashable c \<Longrightarrow> walk_ref c (k # rest) = Inl TypeError"
  by (cases c) (simp_all add: hashable_def py_subscript_def)

lemma set_tag_defaults_no_new:
  assumes c: "hashable c"
  shows "no_new_lookups {[''default''], [''title'']} (set_tag_defaults c T)"
proof -
  have "(\<exists>y. walk_ref v (k # rest) = Inr y) \<or> k # rest \<in> {[''default''], [''title'']}"
    if w: "walk_ref (set_tag_defaults c T v) (k # rest) = Inr x" for v k rest x
  proof (cases v)
    case (JDict d)
    show ?thesis
    proof (cases "dget k d")
      case (Some t)
      then have "dget k (setdefault ''title'' (JStr T) (setdefault ''default'' c d)) = Some t"
        by (simp add: dget_setdefault_present)
      with w JDict Some show ?thesis
        by (auto simp: set_tag_defaults_def py_subscript_def)
    next
      case None
      show ?thesis
      proof (cases "k = ''default''")
        case True
        with None have g: "dget k (setdefault ''title'' (JStr T) (setdefault ''default'' c d)) = Some c"
          by (simp add: dget_setdefault_other dget_setdefault_same)
        from w JDict g have "walk_ref c rest = Inr x"
          by (simp add: set_tag_defaults_def py_subscript_def)
        with c have "rest = []"
          by (cases rest) (simp_all only: walk_ref_atom sum.distinct)
        with True show ?thesis by simp
      next
        case False
        show ?thesis
        proof (cases "k = ''title''")
          case True
          with None have g: "dget k (setdefault ''title'' (JStr T) (setdefault ''default'' c d)) = Some (JStr T)"
            by (simp add: dget_setdefault_other dget_setdefault_same)
          from w JDict g have "walk_ref (JStr T) rest = Inr x"
            by (simp add: set_tag_defaults_def py_subscript_def)
          then have "rest = []"
            by (cases rest) (simp_all add: py_subscript_def)
          with True show ?thesis by simp
        next
          case nt: False
          with False None
          have "dget k (setdefault ''title'' (JStr T) (setdefault ''default'' c d)) = None"
            by (simp add: dget_setdefault_other)
          with w JDict show ?thesis
            by (simp add: set_tag_defaults_def py_subscript_def)
        qed
      qed
    qed
  qed (use w in \<open>auto simp: set_tag_defaults_def\<close>)
  then show ?thesis unfolding no_new_lookups_def by blast
qed

lemma member_update_keeps:
  "keeps_lookups {} (\<lambda>l. case l of JList ms \<Rightarrow> JList (ms[idx := member]) | _ \<Rightarrow> l)"
  unfolding keeps_lookups_def
  by (auto simp: kept_def hashable_def py_subscript_def split: json.splits)

lemma member_update_no_new:
  "no_new_lookups {} (\<lambda>l. case l of JList ms \<Rightarrow> JList (ms[idx := member]) | _ \<Rightarrow> l)"
  unfolding no_new_lookups_def
  by (auto simp: py_subscript_def split: json.splits)

lemma keeps_lookups_upd_at: "keeps_lookups {} f \<Longrightarrow> keeps_lookups {} (upd_at p f)"
  unfolding keeps_lookups_def [of "{}" "upd_at p f"]
proof (intro conjI allI impI)
  fix v
  assume f: "keeps_lookups {} f"
  have "walk_ref v [] = Inr v" by simp
  from upd_at_keeps [OF f this, of p] show "kept v (upd_at p f v)" by simp
next
  fix v k rest x
  assume f: "keeps_lookups {} f" and w: "k \<notin> {} \<and> walk_ref v (k # rest) = Inr x"
  from upd_at_keeps [OF f, of v "k # rest" x p] w
  show "\<exists>x'. walk_ref (upd_at p f v) (k # rest) = Inr x' \<and> kept x x'" by simp
qed

lemma no_new_lookups_upd_at: "no_new_lookups {} f \<Longrightarrow> no_new_lookups {} (upd_at p f)"
  unfolding no_new_lookups_def [of "{}" "upd_at p f"]
  using upd_at_no_new [of "{}" f p] by blast

lemma set_member_keeps: "keeps_lookups {} (set_member idx member)"
  unfolding set_member_def by (rule keeps_lookups_upd_at) (rule member_update_keeps)

lemma set_member_no_new: "no_new_lookups {} (set_member idx member)"
  unfolding set_member_def by (rule no_new_lookups_upd_at) (rule member_update_no_new)

lemma set_discriminator_keeps: "keeps_lookups {''discriminator''} (set_discriminator dm disc)"
proof -
  have a: "kept v (set_discriminator dm disc v)" for v
    by (cases v) (simp_all add: set_discriminator_def kept_refl kept_dict)
  have b: "\<exists>x'. walk_ref (set_discriminator dm disc v) (k # rest) = Inr x' \<and> kept x x'"
    if "k \<noteq> ''discriminator''" "walk_ref v (k # rest) = Inr x" for v k rest x
    using that
    by (cases v) (auto simp: set_discriminator_def py_subscript_def dget_dset_other kept_refl
                       split: option.splits)
  show ?thesis unfolding keeps_lookups_def using a b by auto
qed

lemma walk_ref_append:
  "walk_ref doc (p @ q) = (case walk_ref doc p of Inl e \<Rightarrow> Inl e | Inr v \<Rightarrow> walk_ref v q)"
  by (induction p arbitrary: doc) (auto split: sum.splits)

lemma walk_ref_key:
  "walk_ref doc (q @ [k]) = Inr v \<longleftrightarrow> (\<exists>d. walk_ref doc q = Inr (JDict d) \<and> dget k d = Some v)"
  by (auto simp: walk_ref_append py_subscript_def split: sum.splits json.splits option.splits)

lemma dupd_cong: "dget k d = Some v \<Longrightarrow> g v = h v \<Longrightarrow> dupd k g d = dupd k h d"
  by (induction d) (auto simp: dget_def split: if_splits)

lemma upd_at_value: "walk_ref m p = Inr v \<Longrightarrow> upd_at p f m = upd_at p (\<lambda>_. f v) m"
proof (induction p arbitrary: m)
  case Nil
  then show ?case by simp
next
  case (Cons a p)
  then show ?case
    by (auto simp: py_subscript_def intro!: dupd_cong split: json.splits option.splits sum.splits)
qed

lemma dget_dset_present: "dget k d \<noteq> None \<Longrightarrow> dget k (dset k' v d) \<noteq> None"
  by (cases "k = k'") (simp_all add: dget_dset_same dget_dset_other)

lemma define_variant_named:
  assumes "define_variant name disc path idx (Named r) (doc, nd, dm) = Inr (doc1, nd1, dm1)"
  shows "\<exists>ts c. walk_ref doc (tag_path r disc) = Inr (JDict ts) \<and> dget ''const'' ts = Some c \<and>
           hashable c \<and>
           doc1 = upd_at (tag_path r disc) (set_tag_defaults c (capitalize disc)) doc \<and> nd1 = nd"
proof -
  from assms obtain tag_spec c where
    a: "walk_ref doc (tag_path r disc) = Inr tag_spec" and
    b: "py_subscript tag_spec ''const'' = Inr c" and
    h: "hashable c" and
    c: "doc1 = upd_at (tag_path r disc) (set_tag_defaults c (capitalize disc)) doc" "nd1 = nd"
    by (auto simp: define_variant_def tag_path_def Let_def split: sum.splits if_splits)
  from py_subscript_Inr [OF b] a h c show ?thesis by auto
qed

lemma define_variant_anonymous:
  assumes "define_variant name disc path idx (Anonymous m) (doc, nd, dm) = Inr (doc1, nd1, dm1)"
  shows "\<exists>ts c n. walk_ref m [''properties'', disc] = Inr (JDict ts) \<and> dget ''const'' ts = Some c \<and>
           make_spec_name name c = Inr n \<and>
           doc1 = upd_at path (set_member idx (ref_to (''#/definitions/'' @ n))) doc \<and>
           nd1 = dset n (upd_at [''properties'', disc] (set_tag_defaults c (capitalize disc)) m) nd"
proof -
  from assms obtain tag_spec c n where
    a: "walk_ref m [''properties'', disc] = Inr tag_spec" and
    b: "py_subscript tag_spec ''const'' = Inr c" and
    n: "make_spec_name name c = Inr n" and
    c: "doc1 = upd_at path (set_member idx (ref_to (''#/definitions/'' @ n))) doc"
       "nd1 = dset n (upd_at [''properties'', disc] (set_tag_defaults c (capitalize disc)) m) nd"
    by (auto simp: define_variant_def Let_def split: sum.splits if_splits)
  from py_subscript_Inr [OF b] a n c show ?thesis by auto
qed

lemma define_variant_keeps:
  assumes step: "define_variant name disc path idx v (doc, nd, dm) = Inr (doc1, nd1, dm1)"
    and w: "walk_ref doc t = Inr x"
  shows "\<exists>x'. walk_ref doc1 t = Inr x' \<and> kept x x'"
proof (cases v)
  case (Named r)
  from define_variant_named [OF step [unfolded Named]] obtain c where
    "doc1 = upd_at (tag_path r disc) (set_tag_defaults c (capitalize disc)) doc" by blast
  with upd_at_keeps [OF set_tag_defaults_keeps w] show ?thesis by simp
next
  case (Anonymous m)
  from define_variant_anonymous [OF step [unfolded Anonymous]] obtain n where
    "doc1 = upd_at path (set_member idx (ref_to (''#/definitions/'' @ n))) doc" by blast
  with upd_at_keeps [OF set_member_keeps w] show ?thesis by simp
qed

lemma define_variants_keeps:
  "define_variants name disc path idx vs (doc, nd, dm) = Inr (doc_n, nd_n, dm_n) \<Longrightarrow>
   walk_ref doc t = Inr x \<Longrightarrow> \<exists>x'. walk_ref doc_n t = Inr x' \<and> kept x x'"
proof (induction vs arbitrary: idx doc nd dm x)
  case Nil
  then show ?case by (auto simp: kept_refl)
next
  case (Cons v vs)
  from Cons.prems(1) obtain doc1 nd1 dm1 where
    step: "define_variant name disc path idx v (doc, nd, dm) = Inr (doc1, nd1, dm1)" and
    rest: "define_variants name disc path (Suc idx) vs (doc1, nd1, dm1) = Inr (doc_n, nd_n, dm_n)"
    by (auto split: sum.splits)
  from define_variant_keeps [OF step Cons.prems(2)] obtain x1 where
    x1: "walk_ref doc1 t = Inr x1" "kept x x1" by blast
  from Cons.IH [OF rest x1(1)] obtain x' where "walk_ref doc_n t = Inr x'" "kept x1 x'" by blast
  with x1(2) show ?case by (blast intro: kept_trans)
qed

text \<open>
  A tag-field key that is absent stays absent while the loop handles other variants, and
  the iteration of a referenced variant leaves its constant, default and title in the
  document as the loop ends.
\<close>

lemma define_variant_absent:
  assumes step: "define_variant name disc path idx v (doc, nd, dm) = Inr (doc1, nd1, dm1)"
    and other: "\<forall>r. v = Named r \<longrightarrow> tag_path r disc \<noteq> q"
    and k: "k = ''default'' \<or> k = ''title''"
    and absent: "\<forall>y. walk_ref doc (q @ [k]) \<noteq> Inr y"
  shows "\<forall>y. walk_ref doc1 (q @ [k]) \<noteq> Inr y"
proof (intro allI notI)
  fix y
  assume w: "walk_ref doc1 (q @ [k]) = Inr y"
  show False
  proof (cases v)
    case (Named r)
    from define_variant_named [OF step [unfolded Named]] obtain c where
      c: "hashable c" and
      d: "doc1 = upd_at (tag_path r disc) (set_tag_defaults c (capitalize disc)) doc" by blast
    from upd_at_no_new [OF set_tag_defaults_no_new [OF c], OF w [unfolded d]] absent
    have "q @ [k] = tag_path r disc @ [''default''] \<or> q @ [k] = tag_path r disc @ [''title'']"
      by auto
    then have "q = tag_path r disc" by auto
    with other Named show False by simp
  next
    case (Anonymous m)
    from define_variant_anonymous [OF step [unfolded Anonymous]] obtain n where
      d: "doc1 = upd_at path (set_member idx (ref_to (''#/definitions/'' @ n))) doc" by blast
    from upd_at_no_new [OF set_member_no_new, OF w [unfolded d]] absent
    show False by auto
  qed
qed

lemma define_variants_named:
  "define_variants name disc path idx vs (doc, nd, dm) = Inr (doc_n, nd_n, dm_n) \<Longrightarrow>
   Named r \<in> set vs \<Longrightarrow>
   \<exists>c. walk_ref doc_n (tag_path r disc @ [''const'']) = Inr c \<and> hashable c \<and>
       ((\<forall>y. walk_ref doc (tag_path r disc @ [''default'']) \<noteq> Inr y) \<longrightarrow>
          walk_ref doc_n (tag_path r disc @ [''default'']) = Inr c) \<and>
       ((\<forall>y. walk_ref doc (tag_path r disc @ [''title'']) \<noteq> Inr y) \<longrightarrow>
          walk_ref doc_n (tag_path r disc @ [''title'']) = Inr (JStr (capitalize disc)))"
proof (induction vs arbitrary: idx doc nd dm)
  case Nil
  then show ?case by simp
next
  case (Cons v vs)
  let ?q = "tag_path r disc"
  from Cons.prems(1) obtain doc1 nd1 dm1 where
    step: "define_variant name disc path idx v (doc, nd, dm) = Inr (doc1, nd1, dm1)" and
    rest: "define_variants name disc path (Suc idx) vs (doc1, nd1, dm1) = Inr (doc_n, nd_n, dm_n)"
    by (auto split: sum.splits)
  show ?case
  proof (cases "\<exists>r'. v = Named r' \<and> tag_path r' disc = ?q")
    case True
    then obtain r' where v: "v = Named r'" and q: "tag_path r' disc = ?q" by blast
    from define_variant_named [OF step [unfolded v]] q obtain ts c where
      ts: "walk_ref doc ?q = Inr (JDict ts)" "dget ''const'' ts = Some c" and
      c: "hashable c" and
      d: "doc1 = upd_at ?q (set_tag_defaults c (capitalize disc)) doc" by auto
    have w1: "walk_ref doc1 ?q =
        Inr (JDict (setdefault ''title'' (JStr (capitalize disc)) (setdefault ''default'' c ts)))"
      using walk_ref_upd_at_same [OF ts(1), of "set_tag_defaults c (capitalize disc)"] d
      by (simp add: set_tag_defaults_def)
    have c1: "walk_ref doc1 (?q @ [''const'']) = Inr c"
      using w1 ts(2) by (simp add: walk_ref_key dget_setdefault_other)
    from define_variants_keeps [OF rest c1] c
    have cn: "walk_ref doc_n (?q @ [''const'']) = Inr c" by (auto dest: kept_hashable)
    have dn: "walk_ref doc_n (?q @ [''default'']) = Inr c"
      if "\<forall>y. walk_ref doc (?q @ [''default'']) \<noteq> Inr y"
    proof -
      from that ts(1) have "dget ''default'' ts = None"
        by (cases "dget ''default'' ts") (auto simp: walk_ref_key)
      then have "walk_ref doc1 (?q @ [''default'']) = Inr c"
        using w1 by (simp add: walk_ref_key dget_setdefault_other dget_setdefault_same)
      from define_variants_keeps [OF rest this] c show ?thesis by (auto dest: kept_hashable)
    qed
    have tn: "walk_ref doc_n (?q @ [''title'']) = Inr (JStr (capitalize disc))"
      if "\<forall>y. walk_ref doc (?q @ [''title'']) \<noteq> Inr y"
    proof -
      from that ts(1) have "dget ''title'' ts = None"
        by (cases "dget ''title'' ts") (auto simp: walk_ref_key)
      then have "dget ''title'' (setdefault ''default'' c ts) = None"
        by (simp add: dget_setdefault_other)
      then have "walk_ref doc1 (?q @ [''title'']) = Inr (JStr (capitalize disc))"
        using w1 by (simp add: walk_ref_key dget_setdefault_same)
      from define_variants_keeps [OF rest this] show ?thesis
        by (auto dest: kept_hashable simp: hashable_def)
    qed
    from cn c dn tn show ?thesis by blast
  next
    case False
    then have other: "\<forall>r'. v = Named r' \<longrightarrow> tag_path r' disc \<noteq> ?q" by blast
    with Cons.prems(2) have "Named r \<in> set vs" by auto
    from Cons.IH [OF rest this] obtain c where
      c: "walk_ref doc_n (?q @ [''const'']) = Inr c" "hashable c" and
      d: "(\<forall>y. walk_ref doc1 (?q @ [''default'']) \<noteq> Inr y) \<longrightarrow>
            walk_ref doc_n (?q @ [''default'']) = Inr c" and
      t: "(\<forall>y. walk_ref doc1 (?q @ [''title'']) \<noteq> Inr y) \<longrightarrow>
            walk_ref doc_n (?q @ [''title'']) = Inr (JStr (capitalize disc))"
      by blast
    from define_variant_absent [OF step other, of "''default''"] d
    have d': "(\<forall>y. walk_ref doc (?q @ [''default'']) \<noteq> Inr y) \<longrightarrow>
            walk_ref doc_n (?q @ [''default'']) = Inr c" by blast
    from define_variant_absent [OF step other, of "''title''"] t
    have t': "(\<forall>y. walk_ref doc (?q @ [''title'']) \<noteq> Inr y) \<longrightarrow>
            walk_ref doc_n (?q @ [''title'']) = Inr (JStr (capitalize disc))" by blast
    from c d' t' show ?thesis by blast
  qed
qed

lemma define_variants_new_defs:
  "define_variants name disc path idx vs (doc, nd, dm) = Inr (doc_n, nd_n, dm_n) \<Longrightarrow>
   dget n nd_n = Some ex \<Longrightarrow>
   dget n nd = Some ex \<or> (\<exists>m. Anonymous m \<in> set vs \<and> anonymous_variant_extracted name disc m n ex)"
proof (induction vs arbitrary: idx doc nd dm)
  case Nil
  then show ?case by simp
next
  case (Cons v vs)
  from Cons.prems(1) obtain doc1 nd1 dm1 where
    step: "define_variant name disc path idx v (doc, nd, dm) = Inr (doc1, nd1, dm1)" and
    rest: "define_variants name disc path (Suc idx) vs (doc1, nd1, dm1) = Inr (doc_n, nd_n, dm_n)"
    by (auto split: sum.splits)
  from Cons.IH [OF rest Cons.prems(2)]
  consider "dget n nd1 = Some ex"
    | "\<exists>m. Anonymous m \<in> set vs \<and> anonymous_variant_extracted name disc m n ex" by blast
  then show ?case
  proof cases
    case 1
    show ?thesis
    proof (cases v)
      case (Named r)
      from define_variant_named [OF step [unfolded Named]] 1 show ?thesis by auto
    next
      case (Anonymous m)
      from define_variant_anonymous [OF step [unfolded Anonymous]] obtain ts c n' where
        ts: "walk_ref m [''properties'', disc] = Inr (JDict ts)" "dget ''const'' ts = Some c" and
        n': "make_spec_name name c = Inr n'" and
        nd1: "nd1 = dset n' (upd_at [''properties'', disc] (set_tag_defaults c (capitalize disc)) m) nd"
        by blast
      show ?thesis
      proof (cases "n = n'")
        case False
        with 1 nd1 show ?thesis by (simp add: dget_dset_other)
      next
        case True
        with 1 nd1 have ex: "ex = upd_at [''properties'', disc] (set_tag_defaults c (capitalize disc)) m"
          by (simp add: dget_dset_same)
        from set_tag_defaults_applied [OF ts(2), of disc] obtain ts' where
          ts': "set_tag_defaults c (capitalize disc) (JDict ts) = JDict ts'"
               "defaults_applied disc c ts ts'" by blast
        have "ex = upd_at [''properties'', disc] (\<lambda>_. JDict ts') m"
          using upd_at_value [OF ts(1), of "set_tag_defaults c (capitalize disc)"] ex ts'(1)
          by simp
        with ts(1) ts'(2) n' True have "anonymous_variant_extracted name disc m n ex"
          unfolding anonymous_variant_extracted_def by blast
        with Anonymous show ?thesis by auto
      qed
    qed
  next
    case 2
    then show ?thesis by auto
  qed
qed

lemma define_variants_defs_stay:
  "define_variants name disc path idx vs (doc, nd, dm) = Inr (doc_n, nd_n, dm_n) \<Longrightarrow>
   dget n nd \<noteq> None \<Longrightarrow> dget n nd_n \<noteq> None"
proof (induction vs arbitrary: idx doc nd dm)
  case Nil
  then show ?case by simp
next
  case (Cons v vs)
  from Cons.prems(1) obtain doc1 nd1 dm1 where
    step: "define_variant name disc path idx v (doc, nd, dm) = Inr (doc1, nd1, dm1)" and
    rest: "define_variants name disc path (Suc idx) vs (doc1, nd1, dm1) = Inr (doc_n, nd_n, dm_n)"
    by (auto split: sum.splits)
  have "dget n nd1 \<noteq> None"
  proof (cases v)
    case (Named r)
    from define_variant_named [OF step [unfolded Named]] Cons.prems(2) show ?thesis by auto
  next
    case (Anonymous m)
    from define_variant_anonymous [OF step [unfolded Anonymous]] obtain n' e where
      "nd1 = dset n' e nd" by blast
    with dget_dset_present [OF Cons.prems(2)] show ?thesis by simp
  qed
  from Cons.IH [OF rest this] show ?case .
qed

lemma define_variants_defs_present:
  "define_variants name disc path idx vs (doc, nd, dm) = Inr (doc_n, nd_n, dm_n) \<Longrightarrow>
   Anonymous m \<in> set vs \<Longrightarrow>
   \<exists>ts c n. walk_ref m [''properties'', disc] = Inr (JDict ts) \<and> dget ''const'' ts = Some c \<and>
     make_spec_name name c = Inr n \<and> dget n nd_n \<noteq> None"
proof (induction vs arbitrary: idx doc nd dm)
  case Nil
  then show ?case by simp
next
  case (Cons v vs)
  from Cons.prems(1) obtain doc1 nd1 dm1 where
    step: "define_variant name disc path idx v (doc, nd, dm) = Inr (doc1, nd1, dm1)" and
    rest: "define_variants name disc path (Suc idx) vs (doc1, nd1, dm1) = Inr (doc_n, nd_n, dm_n)"
    by (auto split: sum.splits)
  show ?case
  proof (cases "v = Anonymous m")
    case True
    from define_variant_anonymous [OF step [unfolded True]] obtain ts c n where
      ts: "walk_ref m [''properties'', disc] = Inr (JDict ts)" "dget ''const'' ts = Some c"
          "make_spec_name name c = Inr n" and
      nd1: "nd1 = dset n (upd_at [''properties'', disc] (set_tag_defaults c (capitalize disc)) m) nd"
      by blast
    from nd1 have "dget n nd1 \<noteq> None" by (simp add: dget_dset_same)
    from define_variants_defs_stay [OF rest this] ts show ?thesis by blast
  next
    case False
    with Cons.prems(2) have "Anonymous m \<in> set vs" by auto
    from Cons.IH [OF rest this] show ?thesis .
  qed
qed

lemma resolve_json_ref_path:
  "resolve_json_ref doc ref = Inr v \<Longrightarrow> walk_ref doc (ref_path ref) = Inr v"
  by (auto simp: resolve_json_ref_def ref_path_def Let_def split: if_splits list.splits)

lemma resolve_members_named:
  "resolve_members doc ms = Inr members \<Longrightarrow> Named r \<in> set (map fst members) \<Longrightarrow>
   \<exists>resolved. resolved \<in> set (map snd members) \<and> walk_ref doc (ref_path r) = Inr resolved"
proof (induction ms arbitrary: members)
  case Nil
  then show ?case by simp
next
  case (Cons m ms)
  from Cons.prems(1) obtain d where m: "m = JDict d"
    by (cases m) (simp_all)
  show ?case
  proof (cases "truthy (py_get ''$ref'' d)")
    case True
    with Cons.prems(1) m obtain ref resolved vs where
      r: "py_get ''$ref'' d = JStr ref" "resolve_json_ref doc ref = Inr resolved"
         "resolve_members doc ms = Inr vs" "members = (Named ref, resolved) # vs"
      by (auto simp: Let_def split: json.splits sum.splits)
    show ?thesis
    proof (cases "r = ref")
      case True
      with r(2,4) resolve_json_ref_path show ?thesis by auto
    next
      case False
      with Cons.prems(2) r(4) have "Named r \<in> set (map fst vs)" by auto
      from Cons.IH [OF r(3) this] r(4) show ?thesis by auto
    qed
  next
    case False
    with Cons.prems(1) m obtain vs where
      r: "resolve_members doc ms = Inr vs" "members = (Anonymous m, m) # vs"
      by (auto simp: Let_def split: sum.splits)
    with Cons.prems(2) have "Named r \<in> set (map fst vs)" by auto
    from Cons.IH [OF r(1) this] r(2) show ?thesis by auto
  qed
qed

lemma find_discriminator_Some:
  "find_discriminator tag_fields resolved_specs = Inr (Some d) \<Longrightarrow>
   d \<in> set tag_fields \<and> check_discriminator d resolved_specs = Inr True"
  by (induction tag_fields) (auto split: sum.splits bool.splits if_splits)

lemma declares_tag_spec:
  "declares_tag d entry \<Longrightarrow>
   \<exists>ts c. walk_ref entry [''properties'', d] = Inr (JDict ts) \<and> dget ''const'' ts = Some c"
proof -
  assume a: "declares_tag d entry"
  then obtain e where e: "entry = JDict e" by (cases entry) (simp_all add: declares_tag_def)
  from a e obtain ps where ps: "dget ''properties'' e = Some (JDict ps)"
    by (auto simp: declares_tag_def split: option.splits json.splits)
  from a e ps obtain ts where ts: "dget d ps = Some (JDict ts)"
    by (auto simp: declares_tag_def split: option.splits json.splits)
  from a e ps ts obtain c where "dget ''const'' ts = Some c"
    by (auto simp: declares_tag_def split: option.splits)
  with e ps ts show ?thesis by (simp add: py_subscript_def)
qed

lemma capitalize_candidates:
  "capitalize ''type'' = ''Type''" "capitalize ''success'' = ''Success''"
  "capitalize ''role'' = ''Role''" "capitalize ''code'' = ''Code''"
  by code_simp+

lemma tag_title_candidates:
  assumes "d \<in> set POTENTIAL_TAG_FIELDS"
  shows "(d, capitalize d) \<in> set [(''type'', ''Type''), (''success'', ''Success''),
                             (''role'', ''Role''), (''code'', ''Code'')]"
proof -
  from assms consider "d = ''type''" | "d = ''success''" | "d = ''role''" | "d = ''code''"
    unfolding POTENTIAL_TAG_FIELDS_def by auto
  then show ?thesis
    by cases (simp_all only: capitalize_candidates list.set insert_iff simp_thms)
qed


lemma not_within_key:
  assumes "\<not> within (p @ [a]) q" and "k \<noteq> a"
  shows "q @ [k] \<noteq> p @ a # rest"
proof
  assume e: "q @ [k] = p @ a # rest"
  show False
  proof (cases rest rule: rev_cases)
    case Nil
    with e assms(2) show False by auto
  next
    case (snoc rs z)
    with e have "q = p @ a # rs" by simp
    with assms(1) show False by (simp add: within_def)
  qed
qed

lemma extract_union_variants_named:
  assumes loop: "define_variants name disc path 0 vs (doc, [], []) = Inr (doc_n, nd, dm)"
    and doc': "doc' = upd_at path (set_discriminator dm disc) doc_n"
    and r: "Named r \<in> set vs"
    and ts: "walk_ref doc (tag_path r disc) = Inr (JDict ts)" "dget ''const'' ts = Some c0"
    and outside: "\<not> within (path @ [''discriminator'']) (tag_path r disc)"
  shows "named_variant_defaults disc doc doc' (tag_path r disc)"
proof -
  let ?q = "tag_path r disc"
  let ?d = "case dget ''default'' ts of None \<Rightarrow> c0 | Some old \<Rightarrow> old"
  let ?t = "case dget ''title'' ts of None \<Rightarrow> JStr (capitalize disc) | Some old \<Rightarrow> old"
  have final: "\<exists>x'. walk_ref doc' (?q @ [k]) = Inr x' \<and> kept x x'"
    if "walk_ref doc_n (?q @ [k]) = Inr x" "k \<noteq> ''discriminator''" for k x
    unfolding doc'
  proof (rule upd_at_keeps [OF set_discriminator_keeps that(1)], intro allI impI)
    fix a rest
    assume "a \<in> {''discriminator''}"
    with not_within_key [OF outside that(2)] show "?q @ [k] \<noteq> path @ a # rest" by simp
  qed
  from define_variants_named [OF loop r] obtain c where
    c: "walk_ref doc_n (?q @ [''const'']) = Inr c" "hashable c" and
    d: "(\<forall>y. walk_ref doc (?q @ [''default'']) \<noteq> Inr y) \<longrightarrow>
          walk_ref doc_n (?q @ [''default'']) = Inr c" and
    t: "(\<forall>y. walk_ref doc (?q @ [''title'']) \<noteq> Inr y) \<longrightarrow>
          walk_ref doc_n (?q @ [''title'']) = Inr (JStr (capitalize disc))"
    by blast
  have c0: "walk_ref doc (?q @ [''const'']) = Inr c0"
    using ts by (simp add: walk_ref_key)
  from define_variants_keeps [OF loop c0] c have cc: "c = c0"
    by (auto dest: kept_hashable_rev)
  from final [OF c(1)] c(2) cc have const: "walk_ref doc' (?q @ [''const'']) = Inr c0"
    by (auto dest: kept_hashable)
  have dn: "\<exists>x. walk_ref doc_n (?q @ [''default'']) = Inr x \<and> kept ?d x"
  proof (cases "dget ''default'' ts")
    case None
    with ts(1) have "\<forall>y. walk_ref doc (?q @ [''default'']) \<noteq> Inr y"
      by (simp add: walk_ref_key)
    with d cc None show ?thesis by (simp add: kept_refl)
  next
    case (Some old)
    with ts(1) have "walk_ref doc (?q @ [''default'']) = Inr old" by (simp add: walk_ref_key)
    from define_variants_keeps [OF loop this] Some show ?thesis by simp
  qed
  then obtain x where x: "walk_ref doc_n (?q @ [''default'']) = Inr x" "kept ?d x" by blast
  from final [OF x(1)] x(2) obtain dv where
    dv: "walk_ref doc' (?q @ [''default'']) = Inr dv" "kept ?d dv"
    by (auto intro: kept_trans)
  have tn: "\<exists>x. walk_ref doc_n (?q @ [''title'']) = Inr x \<and> kept ?t x"
  proof (cases "dget ''title'' ts")
    case None
    with ts(1) have "\<forall>y. walk_ref doc (?q @ [''title'']) \<noteq> Inr y"
      by (simp add: walk_ref_key)
    with t None show ?thesis by (simp add: kept_refl)
  next
    case (Some old)
    with ts(1) have "walk_ref doc (?q @ [''title'']) = Inr old" by (simp add: walk_ref_key)
    from define_variants_keeps [OF loop this] Some show ?thesis by simp
  qed
  then obtain y where y: "walk_ref doc_n (?q @ [''title'']) = Inr y" "kept ?t y" by blast
  from final [OF y(1)] y(2) obtain tv where
    tv: "walk_ref doc' (?q @ [''title'']) = Inr tv" "kept ?t tv"
    by (auto intro: kept_trans)
  from const obtain ts' where
    ts': "walk_ref doc' ?q = Inr (JDict ts')" "dget ''const'' ts' = Some c0"
    by (auto simp: walk_ref_key)
  from dv(1) tv(1) ts'(1) have "dget ''default'' ts' = Some dv" "dget ''title'' ts' = Some tv"
    by (simp_all add: walk_ref_key)
  with ts ts' dv(2) tv(2) show ?thesis
    unfolding named_variant_defaults_def by blast
qed

text \<open>
  C9. Suppose the union at \<^verbatim>\<open>path\<close> has members that resolve, a candidate tag field is
  found to discriminate it, and the extraction returns the document \<^verbatim>\<open>doc'\<close> and the
  definitions \<^verbatim>\<open>r\<close>. The tag field is one of the four candidates, and its title is
  \<^verbatim>\<open>Type\<close>, \<^verbatim>\<open>Success\<close>, \<^verbatim>\<open>Role\<close> or \<^verbatim>\<open>Code\<close>. For every referenced variant, the tag-field
  subschema it has in \<^verbatim>\<open>doc'\<close> holds the variant's constant under \<^verbatim>\<open>"default"\<close> and that
  title under \<^verbatim>\<open>"title"\<close> where the key was absent before, and the earlier value where
  it was present (a list or an object is still one); this is stated for a reference that
  does not lead into the \<^verbatim>\<open>"discriminator"\<close> entry of the union itself, which the
  extraction overwrites. The definitions returned have an entry under the synthesized
  name of every anonymous variant, and every entry is an anonymous variant with the
  defaults applied to its tag-field subschema in the same way, nothing else changed.
\<close>

theorem discriminated_union_tag_defaults:
  assumes spec: "walk_ref doc path = Inr spec"
    and members: "py_subscript spec ''anyOf'' = Inr (JList union_member_specs)"
    and resolved: "resolve_members doc union_member_specs = Inr members"
    and discriminated:
      "find_discriminator POTENTIAL_TAG_FIELDS (map snd members) = Inr (Some discriminator)"
    and run: "extract_union_variants doc name path = Inr (doc', r)"
  shows "(discriminator, capitalize discriminator) \<in>
           set [(''type'', ''Type''), (''success'', ''Success''),
                (''role'', ''Role''), (''code'', ''Code'')] \<and>
         (\<forall>spec_ref.
            Named spec_ref \<in> set (map fst members) \<and>
            \<not> within (path @ [''discriminator'']) (tag_path spec_ref discriminator) \<longrightarrow>
            named_variant_defaults discriminator doc doc' (tag_path spec_ref discriminator)) \<and>
         (\<exists>new_defs.
            r = JDict new_defs \<and>
            (\<forall>resolved_spec.
               Anonymous resolved_spec \<in> set (map fst members) \<longrightarrow>
               (\<exists>tag_value new_spec_name.
                  walk_ref resolved_spec [''properties'', discriminator, ''const''] = Inr tag_value \<and>
                  make_spec_name name tag_value = Inr new_spec_name \<and>
                  dget new_spec_name new_defs \<noteq> None)) \<and>
            (\<forall>new_spec_name extracted.
               dget new_spec_name new_defs = Some extracted \<longrightarrow>
               (\<exists>resolved_spec.
                  Anonymous resolved_spec \<in> set (map fst members) \<and>
                  anonymous_variant_extracted name discriminator resolved_spec
                    new_spec_name extracted)))"
proof -
  from run spec members resolved discriminated obtain doc_n nd dm where
    loop: "define_variants name discriminator path 0 (map fst members) (doc, [], []) =
             Inr (doc_n, nd, dm)" and
    doc': "doc' = upd_at path (set_discriminator dm discriminator) doc_n" and
    r: "r = JDict nd"
    by (auto simp: extract_union_variants_def split: sum.splits)
  from find_discriminator_Some [OF discriminated] have
    cand: "discriminator \<in> set POTENTIAL_TAG_FIELDS" and
    chk: "check_discriminator discriminator (map snd members) = Inr True" by simp_all
  have named: "named_variant_defaults discriminator doc doc' (tag_path spec_ref discriminator)"
    if n: "Named spec_ref \<in> set (map fst members)"
      and o: "\<not> within (path @ [''discriminator'']) (tag_path spec_ref discriminator)"
    for spec_ref
  proof -
    from resolve_members_named [OF resolved n] obtain rs where
      rs: "rs \<in> set (map snd members)" "walk_ref doc (ref_path spec_ref) = Inr rs" by blast
    from chk rs(1) have "declares_tag discriminator rs"
      by (simp only: check_discriminator_True_iff)
    from declares_tag_spec [OF this] obtain ts c where
      "walk_ref rs [''properties'', discriminator] = Inr (JDict ts)" "dget ''const'' ts = Some c"
      by blast
    with rs(2) have ts: "walk_ref doc (tag_path spec_ref discriminator) = Inr (JDict ts)"
        "dget ''const'' ts = Some c"
      by (simp_all add: tag_path_def walk_ref_append)
    from extract_union_variants_named [OF loop doc' n ts o] show ?thesis .
  qed
  have present: "\<exists>tag_value new_spec_name.
        walk_ref m [''properties'', discriminator, ''const''] = Inr tag_value \<and>
        make_spec_name name tag_value = Inr new_spec_name \<and> dget new_spec_name nd \<noteq> None"
    if "Anonymous m \<in> set (map fst members)" for m
  proof -
    from define_variants_defs_present [OF loop that] obtain ts c n where
      a: "walk_ref m [''properties'', discriminator] = Inr (JDict ts)" "dget ''const'' ts = Some c"
         "make_spec_name name c = Inr n" "dget n nd \<noteq> None" by blast
    from a(1,2) have "walk_ref m ([''properties'', discriminator] @ [''const'']) = Inr c"
      by (simp only: walk_ref_key) simp
    with a(3,4) show ?thesis by auto
  qed
  have entries: "\<exists>m. Anonymous m \<in> set (map fst members) \<and>
        anonymous_variant_extracted name discriminator m n ex"
    if "dget n nd = Some ex" for n ex
    using define_variants_new_defs [OF loop that] by (simp add: dget_def)
  from tag_title_candidates [OF cand] named present entries r show ?thesis by blast
qed

text \<open>
  On the example: \<^verbatim>\<open>Ring\<close> receives its constant as default and the title \<^verbatim>\<open>Type\<close>,
  \<^verbatim>\<open>Circle\<close> receives its constant as default and keeps its title, and the extracted
  definition \<^verbatim>\<open>FigureSquare\<close> receives both.
\<close>

theorem discriminated_union_tag_defaults_witness:
  "extract_union_variants example_figure_doc ''Figure'' [''definitions'', ''Figure''] =
     Inr (example_figure_out, example_figure_defs) \<and>
   capitalize ''type'' = ''Type'' \<and>
   (\<exists>tag_spec'.
      walk_ref example_figure_out (tag_path ''#/definitions/Ring'' ''type'') = Inr (JDict tag_spec') \<and>
      dget ''const'' tag_spec' = Some (JStr ''ring'') \<and>
      dget ''default'' tag_spec' = Some (JStr ''ring'') \<and>
      dget ''title'' tag_spec' = Some (JStr ''Type'')) \<and>
   (\<exists>tag_spec'.
      walk_ref example_figure_out (tag_path ''#/definitions/Circle'' ''type'') = Inr (JDict tag_spec') \<and>
      dget ''const'' tag_spec' = Some (JStr ''circle'') \<and>
      dget ''default'' tag_spec' = Some (JStr ''circle'') \<and>
      dget ''title'' tag_spec' = Some (JStr ''Kind'')) \<and>
   (\<exists>new_defs extracted tag_spec'.
      example_figure_defs = JDict new_defs \<and>
      dget ''FigureSquare'' new_defs = Some extracted \<and>
      walk_ref extracted [''properties'', ''type''] = Inr (JDict tag_spec') \<and>
      dget ''const'' tag_spec' = Some (JStr ''square'') \<and>
      dget ''default'' tag_spec' = Some (JStr ''square'') \<and>
      dget ''title'' tag_spec' = Some (JStr ''Type''))"
proof -
  let ?members = "[(Named ''#/definitions/Circle'', example_circle),
                   (Named ''#/definitions/Ring'', example_ring),
                   (Anonymous example_square, example_square)]"
  let ?path = "[''definitions'', ''Figure'']"
  have spec: "walk_ref example_figure_doc ?path =
      Inr (obj [(''anyOf'', JList example_figure_members)])"
    by code_simp
  have members: "py_subscript (obj [(''anyOf'', JList example_figure_members)]) ''anyOf'' =
      Inr (JList example_figure_members)"
    by code_simp
  have resolved: "resolve_members example_figure_doc example_figure_members = Inr ?members"
    by code_simp
  have discriminated: "find_discriminator POTENTIAL_TAG_FIELDS (map snd ?members) = Inr (Some ''type'')"
    by code_simp
  have run: "extract_union_variants example_figure_doc ''Figure'' ?path =
      Inr (example_figure_out, example_figure_defs)"
    by code_simp
  note all = discriminated_union_tag_defaults [OF spec members resolved discriminated run]
  from all have "(''type'', capitalize ''type'') \<in>
      set [(''type'', ''Type''), (''success'', ''Success''), (''role'', ''Role''), (''code'', ''Code'')]"
    by (rule conjunct1)
  then have title: "capitalize ''type'' = ''Type''" by simp
  from all have named: "\<And>spec_ref.
      Named spec_ref \<in> set (map fst ?members) \<Longrightarrow>
      \<not> within (?path @ [''discriminator'']) (tag_path spec_ref ''type'') \<Longrightarrow>
      named_variant_defaults ''type'' example_figure_doc example_figure_out (tag_path spec_ref ''type'')"
    by blast
  have ring: "\<exists>tag_spec'.
      walk_ref example_figure_out (tag_path ''#/definitions/Ring'' ''type'') = Inr (JDict tag_spec') \<and>
      dget ''const'' tag_spec' = Some (JStr ''ring'') \<and>
      dget ''default'' tag_spec' = Some (JStr ''ring'') \<and>
      dget ''title'' tag_spec' = Some (JStr ''Type'')"
  proof -
    have m: "Named ''#/definitions/Ring'' \<in> set (map fst ?members)" by simp
    have o: "\<not> within (?path @ [''discriminator'']) (tag_path ''#/definitions/Ring'' ''type'')"
      by code_simp
    have before: "walk_ref example_figure_doc (tag_path ''#/definitions/Ring'' ''type'') =
        Inr (JDict [(JStr ''type'', JStr ''string''), (JStr ''const'', JStr ''ring'')])"
      by code_simp
    have vals: "dget ''const'' [(JStr ''type'', JStr ''string''), (JStr ''const'', JStr ''ring'')] = Some (JStr ''ring'')"
      "dget ''default'' [(JStr ''type'', JStr ''string''), (JStr ''const'', JStr ''ring'')] = None"
      "dget ''title'' [(JStr ''type'', JStr ''string''), (JStr ''const'', JStr ''ring'')] = None"
      by code_simp+
    from named [OF m o] before vals title show ?thesis
      unfolding named_variant_defaults_def
      by (auto simp: kept_def hashable_def)
  qed
  have circle: "\<exists>tag_spec'.
      walk_ref example_figure_out (tag_path ''#/definitions/Circle'' ''type'') = Inr (JDict tag_spec') \<and>
      dget ''const'' tag_spec' = Some (JStr ''circle'') \<and>
      dget ''default'' tag_spec' = Some (JStr ''circle'') \<and>
      dget ''title'' tag_spec' = Some (JStr ''Kind'')"
  proof -
    have m: "Named ''#/definitions/Circle'' \<in> set (map fst ?members)" by simp
    have o: "\<not> within (?path @ [''discriminator'']) (tag_path ''#/definitions/Circle'' ''type'')"
      by code_simp
    have before: "walk_ref example_figure_doc (tag_path ''#/definitions/Circle'' ''type'') =
        Inr (JDict [(JStr ''type'', JStr ''string''), (JStr ''const'', JStr ''circle''),
                    (JStr ''title'', JStr ''Kind'')])"
      by code_simp
    have vals: "dget ''const'' [(JStr ''type'', JStr ''string''), (JStr ''const'', JStr ''circle''),
                    (JStr ''title'', JStr ''Kind'')] = Some (JStr ''circle'')"
      "dget ''default'' [(JStr ''type'', JStr ''string''), (JStr ''const'', JStr ''circle''),
                    (JStr ''title'', JStr ''Kind'')] = None"
      "dget ''title'' [(JStr ''type'', JStr ''string''), (JStr ''const'', JStr ''circle''),
                    (JStr ''title'', JStr ''Kind'')] = Some (JStr ''Kind'')"
      by code_simp+
    from named [OF m o] before vals show ?thesis
      unfolding named_variant_defaults_def
      by (auto simp: kept_def hashable_def)
  qed
  from all obtain new_defs where
    r: "example_figure_defs = JDict new_defs" and
    present: "\<And>resolved_spec. Anonymous resolved_spec \<in> set (map fst ?members) \<Longrightarrow>
        \<exists>tag_value new_spec_name.
          walk_ref resolved_spec [''properties'', ''type'', ''const''] = Inr tag_value \<and>
          make_spec_name ''Figure'' tag_value = Inr new_spec_name \<and>
          dget new_spec_name new_defs \<noteq> None" and
    entries: "\<And>new_spec_name extracted. dget new_spec_name new_defs = Some extracted \<Longrightarrow>
        \<exists>resolved_spec. Anonymous resolved_spec \<in> set (map fst ?members) \<and>
          anonymous_variant_extracted ''Figure'' ''type'' resolved_spec new_spec_name extracted"
    by blast
  have square: "\<exists>extracted tag_spec'.
      dget ''FigureSquare'' new_defs = Some extracted \<and>
      walk_ref extracted [''properties'', ''type''] = Inr (JDict tag_spec') \<and>
      dget ''const'' tag_spec' = Some (JStr ''square'') \<and>
      dget ''default'' tag_spec' = Some (JStr ''square'') \<and>
      dget ''title'' tag_spec' = Some (JStr ''Type'')"
  proof -
    have m: "Anonymous example_square \<in> set (map fst ?members)" by simp
    have c: "walk_ref example_square [''properties'', ''type'', ''const''] = Inr (JStr ''square'')"
      by code_simp
    have n: "make_spec_name ''Figure'' (JStr ''square'') = Inr ''FigureSquare''"
      by code_simp
    from present [OF m] c n obtain extracted where
      ex: "dget ''FigureSquare'' new_defs = Some extracted" by auto
    from entries [OF ex] have
      av: "anonymous_variant_extracted ''Figure'' ''type'' example_square ''FigureSquare'' extracted"
      by simp
    have before: "walk_ref example_square [''properties'', ''type''] =
        Inr (JDict [(JStr ''type'', JStr ''string''), (JStr ''const'', JStr ''square'')])"
      by code_simp
    have vals: "dget ''const'' [(JStr ''type'', JStr ''string''), (JStr ''const'', JStr ''square'')] = Some (JStr ''square'')"
      "dget ''default'' [(JStr ''type'', JStr ''string''), (JStr ''const'', JStr ''square'')] = None"
      "dget ''title'' [(JStr ''type'', JStr ''string''), (JStr ''const'', JStr ''square'')] = None"
      by code_simp+
    from av before obtain ts' c' where
      da: "defaults_applied ''type'' c'
             [(JStr ''type'', JStr ''string''), (JStr ''const'', JStr ''square'')] ts'" and
      e: "extracted = upd_at [''properties'', ''type''] (\<lambda>_. JDict ts') example_square"
      unfolding anonymous_variant_extracted_def by auto
    from walk_ref_upd_at_same [OF before, of "\<lambda>_. JDict ts'"] e
    have w: "walk_ref extracted [''properties'', ''type''] = Inr (JDict ts')" by simp
    from da vals title have
      "dget ''const'' ts' = Some (JStr ''square'')"
      "dget ''default'' ts' = Some (JStr ''square'')"
      "dget ''title'' ts' = Some (JStr ''Type'')"
      unfolding defaults_applied_def by auto
    with ex w show ?thesis by blast
  qed
  from run title ring circle r square show ?thesis by blast
qed

section \<open>Running the inference again\<close>

text \<open>
  C3 as stated fails. The first pass over a document deletes the two excluded
  definitions; the pass over the document it produced does not find them and raises
  KeyError.
\<close>

theorem second_pass_fails:
  "process_schema example_plain_doc = Inr example_plain_out \<and>
   process_schema example_plain_out = Inl KeyError"
  by code_simp

text \<open>
  Putting the two definitions back does not make the pass repeatable either: the rewritten
  optional-result union is rewritten once more and its definition collides with the one
  of the first pass.
\<close>

lemma second_pass_duplicate_definition:
  "process_schema example_rpc_doc = Inr example_rpc_out \<and>
   process_schema example_rpc_restored = Inl RuntimeError"
  by code_simp

text \<open>
  C3, amended. The processor runs the inference once: a call of \<^verbatim>\<open>infer_unions\<close> on the
  processor left by a successful call returns the same document, extracts and synthesizes
  nothing, and does not fail.
\<close>

theorem infer_unions_once:
  "infer_unions self = Inr (self', doc) \<Longrightarrow> infer_unions self' = Inr (self', doc)"
  by (auto simp: infer_unions_def split: if_splits sum.splits)

theorem infer_unions_once_witness:
  "infer_unions \<lparr>schema = example_plain_out, processed = True\<rparr> =
     Inr (\<lparr>schema = example_plain_out, processed = True\<rparr>, example_plain_out)"
proof -
  have first: "infer_unions \<lparr>schema = example_plain_doc, processed = False\<rparr> =
      Inr (\<lparr>schema = example_plain_out, processed = True\<rparr>, example_plain_out)"
    by code_simp
  from infer_unions_once [OF first] show ?thesis .
qed

section \<open>The scan of the top-level nodes, step by step\<close>

lemma process_body_length:
  "process_body is_builtin idx body st = Inr (body', st') \<Longrightarrow> length body' = length body"
  by (induction body arbitrary: idx st body') (auto split: sum.splits prod.splits)

lemma process_body_steps:
  assumes "process_body is_builtin idx body st = Inr (body', st')" and "i < length body"
  shows "\<exists>st_i st_i'.
           process_body is_builtin idx (take i body) st = Inr (take i body', st_i) \<and>
           process_top_level is_builtin (idx + i) (body ! i) st_i = Inr (body' ! i, st_i') \<and>
           process_body is_builtin (idx + Suc i) (drop (Suc i) body) st_i' =
             Inr (drop (Suc i) body', st')"
  using assms
proof (induction body arbitrary: idx st body' i)
  case Nil
  then show ?case by simp
next
  case (Cons node rest)
  from Cons.prems(1) obtain node' st1 rest' where
    step: "process_top_level is_builtin idx node st = Inr (node', st1)" and
    tail: "process_body is_builtin (Suc idx) rest st1 = Inr (rest', st')" and
    out: "body' = node' # rest'"
    by (auto split: sum.splits prod.splits)
  show ?case
  proof (cases i)
    case 0
    have "process_body is_builtin idx (take 0 (node # rest)) st = Inr (take 0 body', st)"
      by simp
    moreover have "process_top_level is_builtin (idx + 0) ((node # rest) ! 0) st = Inr (body' ! 0, st1)"
      using step out by simp
    moreover have "process_body is_builtin (idx + Suc 0) (drop (Suc 0) (node # rest)) st1 =
        Inr (drop (Suc 0) body', st')"
      using tail out by simp
    ultimately show ?thesis unfolding 0 by blast
  next
    case (Suc j)
    with Cons.prems(2) have j: "j < length rest" by simp
    from Cons.IH [OF tail j] obtain st_j st_j' where
      a: "process_body is_builtin (Suc idx) (take j rest) st1 = Inr (take j rest', st_j)" and
      b: "process_top_level is_builtin (Suc idx + j) (rest ! j) st_j = Inr (rest' ! j, st_j')" and
      c: "process_body is_builtin (Suc idx + Suc j) (drop (Suc j) rest) st_j' =
            Inr (drop (Suc j) rest', st')"
      by blast
    have "process_body is_builtin idx (take (Suc j) (node # rest)) st = Inr (take (Suc j) body', st_j)"
      using step a out by simp
    moreover have "process_top_level is_builtin (idx + Suc j) ((node # rest) ! Suc j) st_j =
        Inr (body' ! Suc j, st_j')"
      using b out by simp
    moreover have "process_body is_builtin (idx + Suc (Suc j)) (drop (Suc (Suc j)) (node # rest)) st_j' =
        Inr (drop (Suc (Suc j)) body', st')"
      using c out by simp
    ultimately show ?thesis unfolding Suc by blast
  qed
qed

lemma process_class_result:
  assumes "process_class g bases kws cbody decos st = Inr (node', st')"
  shows "(\<not> endswith (overridden g) ''Dict'' \<longrightarrow>
            node' = ClassDef (overridden g) bases kws cbody decos) \<and>
         (endswith (overridden g) ''Dict'' \<and> override_name g = None \<longrightarrow>
            node' = ClassDef (overridden g) bases kws cbody decos) \<and>
         (endswith (overridden g) ''Dict'' \<and> override_name g \<noteq> None \<longrightarrow>
            (\<exists>docstring rest.
               cbody = Expr (Constant (CStr docstring)) # rest \<and>
               node' = ClassDef (overridden g) bases kws
                         (Expr (Constant (CStr (str_replace g (overridden g) docstring))) # rest)
                         decos))"
  using assms
  by (auto simp: process_class_def Let_def fix_docstring_def
           split: if_splits sum.splits list.splits stmt.splits expr.splits const_value.splits)

section \<open>The export list\<close>

lemma class_names_append: "class_names (xs @ ys) = class_names xs @ class_names ys"
  by (induction xs rule: class_names.induct) simp_all

lemma class_names_Cons_assign: "is_assign node \<Longrightarrow> class_names (node # rest) = class_names rest"
  by (cases node) simp_all

lemma class_names_insert:
  "is_assign node \<Longrightarrow> class_names (take i body @ [node] @ drop i body) = class_names body"
proof -
  assume "is_assign node"
  then have "class_names (take i body @ [node] @ drop i body) =
      class_names (take i body) @ class_names (drop i body)"
    by (simp add: class_names_append class_names_Cons_assign)
  also have "\<dots> = class_names (take i body @ drop i body)"
    by (simp only: class_names_append)
  finally show ?thesis by simp
qed

lemma class_names_insert_nodes:
  "\<forall>n \<in> set nodes. is_assign (snd n) \<Longrightarrow> class_names (insert_nodes nodes body) = class_names body"
proof (induction nodes arbitrary: body)
  case Nil
  then show ?case by simp
next
  case (Cons n nodes)
  obtain i node where n: "n = (i, node)" by (cases n)
  with Cons.prems have "is_assign node" by simp
  with Cons n show ?case by (simp add: class_names_insert del: append.simps)
qed

lemma process_alias_exports:
  "process_alias is_builtin idx alias e st = Inr st' \<Longrightarrow>
   exported_names st' = exported_names st \<and>
   (set (additional_nodes st') - set (additional_nodes st)) \<subseteq> {n. is_assign (snd n)}"
  by (auto simp: process_alias_def Let_def split: option.splits if_splits expr.splits operator.splits sum.splits)

lemma process_class_exports:
  "process_class g bases kwds cbody decos st = Inr (node', st') \<Longrightarrow>
   exported_names st' = exported_names st @ class_names [node'] \<and>
   additional_nodes st' = additional_nodes st"
  by (auto simp: process_class_def Let_def split: if_splits sum.splits)

lemma process_top_level_exports:
  assumes "process_top_level is_builtin idx node st = Inr (node', st')"
  shows "exported_names st' = exported_names st @ class_names [node'] \<and>
         (set (additional_nodes st') - set (additional_nodes st)) \<subseteq> {n. is_assign (snd n)}"
proof (cases node)
  case (ClassDef g bases kwds cbody decos)
  with assms process_class_exports [of g bases kwds cbody decos st node' st'] show ?thesis
    by (simp add: process_top_level_def)
next
  case (Assign targets v)
  show ?thesis
  proof (cases "\<exists>alias ctx. targets = [Name alias ctx]")
    case True
    then obtain a c where "targets = [Name a c]" by blast
    with assms Assign process_alias_exports [of is_builtin idx a v st st'] show ?thesis
      by (auto simp: process_top_level_def split: sum.splits)
  next
    case False
    with assms Assign show ?thesis
      by (auto simp: process_top_level_def split: list.splits expr.splits)
  qed
next
  case (Expr v)
  with assms show ?thesis by (auto simp: process_top_level_def)
next
  case (OtherStmt cls es body)
  with assms show ?thesis by (auto simp: process_top_level_def)
qed

lemma process_body_exports:
  "process_body is_builtin idx body st = Inr (body', st') \<Longrightarrow>
   exported_names st' = exported_names st @ class_names body' \<and>
   (set (additional_nodes st') - set (additional_nodes st)) \<subseteq> {n. is_assign (snd n)}"
proof (induction body arbitrary: idx st body')
  case Nil
  then show ?case by simp
next
  case (Cons node rest)
  from Cons.prems obtain node' st1 rest' where
    step: "process_top_level is_builtin idx node st = Inr (node', st1)" and
    tail: "process_body is_builtin (Suc idx) rest st1 = Inr (rest', st')" and
    out: "body' = node' # rest'"
    by (auto split: sum.splits prod.splits)
  from Cons.IH [OF tail] process_top_level_exports [OF step] out
  show ?case
    using class_names_append [of "[node']" rest'] by auto
qed

lemma rewrite_tree_exports:
  assumes "rewrite_tree is_builtin body = Inr (body', st)"
  shows "exported_names st = class_names body'"
proof -
  from assms obtain body1 where
    run: "process_body is_builtin 0 (map rename_stmt body) initial_scan_state = Inr (body1, st)" and
    out: "body' = insert_nodes (rev (additional_nodes st)) body1"
    by (auto simp: rewrite_tree_def split: sum.splits prod.splits)
  from process_body_exports [OF run]
  have a: "exported_names st = class_names body1"
    and b: "\<forall>n \<in> set (rev (additional_nodes st)). is_assign (snd n)"
    by (auto simp: initial_scan_state_def)
  from class_names_insert_nodes [OF b] a out show ?thesis by simp
qed

lemma class_line_index_first:
  "\<forall>p \<in> set pre. \<not> startswith p ''class'' \<Longrightarrow> startswith l ''class'' \<Longrightarrow>
   class_line_index (pre @ l # post) = Some (length pre)"
proof (induction pre)
  case Nil
  then show ?case by simp
next
  case (Cons p pre)
  then have "class_line_index (pre @ l # post) = Some (length pre)" by simp
  moreover obtain x xs where "pre @ l # post = x # xs" by (cases "pre @ l # post") auto
  ultimately show ?case using Cons.prems by simp
qed

lemma insert_all_before_class:
  "\<forall>p \<in> set pre. \<not> startswith p ''class'' \<Longrightarrow> startswith l ''class'' \<Longrightarrow>
   insert_all names (pre @ l # post) = Inr (pre @ lines_to_insert names @ l # post)"
  by (simp add: insert_all_def class_line_index_first)

text \<open>
  C5 as stated fails: only class definitions are exported. The module below declares the
  alias \<^verbatim>\<open>ModelKey\<close>, and the alias \<^verbatim>\<open>SettingsDict\<close> is synthesized, yet the exported names
  are the two classes.
\<close>

theorem aliases_not_exported:
  "tree_exports example_builtin [example_alias, example_foo, example_foo_dict, example_union_alias] =
     Inr [''Foo'', ''FooDict''] \<and>
   tree_body example_builtin [example_alias, example_foo, example_foo_dict, example_union_alias] =
     Inr [example_alias, example_foo, example_foo_dict, example_union_alias,
          Assign [Name ''SettingsDict'' Store]
            (BinOp
              (BinOp
                (BinOp (BinOp (Name ''FooDict'' Load) BitOr (Name ''Mapping'' Load)) BitOr
                   (Name ''str'' Load))
                BitOr (Name ''str'' Load))
              BitOr
              (Subscript (Name ''Mapping'' Load)
                 (Tuple [Name ''str'' Load, Name ''str'' Load] Load) Load))]"
  by code_simp

text \<open>
  C5, amended. If the tree-level post-processing returns, the exported names are the names
  of the top-level class definitions of the final body, in their order; the manifest is
  \<^verbatim>\<open>__all__ = [\<close>, one line for each of these names in sorted order, and \<^verbatim>\<open>]\<close> with two
  empty lines; and it is inserted immediately before the first line of the updated source
  that starts with \<^verbatim>\<open>class\<close>.
\<close>

theorem export_manifest:
  assumes "rewrite_tree is_builtin body = Inr (body', st)"
  shows "exported_names st = class_names body' \<and>
         lines_to_insert (exported_names st) =
           ''__all__ = ['' # map name_line (sort (class_names body')) @ ['']'', [], []] \<and>
         sorted (sort (class_names body')) \<and>
         (\<forall>pre l post.
            (\<forall>p \<in> set pre. \<not> startswith p ''class'') \<and> startswith l ''class'' \<longrightarrow>
            insert_all (exported_names st) (pre @ l # post) =
              Inr (pre @ lines_to_insert (exported_names st) @ l # post))"
  using rewrite_tree_exports [OF assms]
  by (simp add: lines_to_insert_def insert_all_before_class)

theorem export_manifest_witness:
  "\<exists>st body'.
     rewrite_tree example_builtin [example_alias, example_foo, example_foo_dict] = Inr (body', st) \<and>
     insert_all (exported_names st) [''ModelKey = str'', ''class Foo(LMStudioStruct):''] =
       Inr [''ModelKey = str'', ''__all__ = ['', name_line ''Foo'', name_line ''FooDict'',
            '']'', [], [], ''class Foo(LMStudioStruct):'']"
proof -
  have "case rewrite_tree example_builtin [example_alias, example_foo, example_foo_dict] of
          Inr _ \<Rightarrow> True | Inl _ \<Rightarrow> False"
    by code_simp
  then obtain body' st where
    run: "rewrite_tree example_builtin [example_alias, example_foo, example_foo_dict] = Inr (body', st)"
    by (auto split: sum.splits)
  have "tree_exports example_builtin [example_alias, example_foo, example_foo_dict] =
      Inr [''Foo'', ''FooDict'']"
    by code_simp
  with run have names: "exported_names st = [''Foo'', ''FooDict'']"
    by (simp add: tree_exports_def)
  have lines: "lines_to_insert [''Foo'', ''FooDict''] =
      [''__all__ = ['', name_line ''Foo'', name_line ''FooDict'', '']'', [], []]"
    by code_simp
  have pre: "(\<forall>p \<in> set [''ModelKey = str'']. \<not> startswith p ''class'') \<and>
      startswith ''class Foo(LMStudioStruct):'' ''class''"
    by code_simp
  from export_manifest [OF run] pre
  have "insert_all (exported_names st) ([''ModelKey = str''] @ ''class Foo(LMStudioStruct):'' # []) =
      Inr ([''ModelKey = str''] @ lines_to_insert (exported_names st) @
           ''class Foo(LMStudioStruct):'' # [])"
    by blast
  with run names lines show ?thesis by simp
qed

section \<open>The renaming of the tree\<close>

lemma expr_names_rename: "expr_names (rename_expr e) = map overridden (expr_names e)"
  by (induction e rule: rename_expr.induct) (simp_all add: map_concat comp_def cong: map_cong)

lemma expr_strings_rename: "expr_strings (rename_expr e) = map overridden (expr_strings e)"
  by (induction e rule: rename_expr.induct) (simp_all add: map_concat comp_def cong: map_cong)

lemma stmt_names_rename: "stmt_names (rename_stmt s) = map overridden (stmt_names s)"
  by (induction s rule: rename_stmt.induct)
     (simp_all add: map_concat comp_def expr_names_rename case_prod_unfold cong: map_cong)

lemma stmt_strings_rename: "stmt_strings (rename_stmt s) = map overridden (stmt_strings s)"
  by (induction s rule: rename_stmt.induct)
     (simp_all add: map_concat comp_def expr_strings_rename case_prod_unfold cong: map_cong)

lemma override_key_prefixes:
  "\<forall>kv \<in> set DATA_MODEL_NAME_OVERRIDES.
     take 2 (fst kv) \<in> set [''Ch'', ''Fu'', ''Ll'', ''Re'', ''Pl'']"
  unfolding DATA_MODEL_NAME_OVERRIDES_def by simp

lemma override_value_prefixes:
  "\<forall>kv \<in> set DATA_MODEL_NAME_OVERRIDES.
     take 2 (snd kv) \<notin> set [''Ch'', ''Fu'', ''Ll'', ''Re'', ''Pl'']"
  unfolding DATA_MODEL_NAME_OVERRIDES_def by simp

lemma override_values_not_keys:
  "\<forall>kv \<in> set DATA_MODEL_NAME_OVERRIDES. override_name (snd kv) = None"
proof
  fix kv
  assume kv: "kv \<in> set DATA_MODEL_NAME_OVERRIDES"
  show "override_name (snd kv) = None"
  proof (rule ccontr)
    assume "override_name (snd kv) \<noteq> None"
    then obtain v where "map_of DATA_MODEL_NAME_OVERRIDES (snd kv) = Some v"
      by (auto simp: override_name_def)
    then have "(snd kv, v) \<in> set DATA_MODEL_NAME_OVERRIDES"
      by (rule map_of_SomeD)
    with override_key_prefixes
    have "take 2 (fst (snd kv, v)) \<in> set [''Ch'', ''Fu'', ''Ll'', ''Re'', ''Pl'']"
      by blast
    with override_value_prefixes kv show False by auto
  qed
qed

lemma overridden_not_key: "override_name (overridden name) = None"
proof (cases "override_name name")
  case None
  then show ?thesis by (simp add: overridden_def)
next
  case (Some v)
  then have "(name, v) \<in> set DATA_MODEL_NAME_OVERRIDES"
    unfolding override_name_def by (rule map_of_SomeD)
  with override_values_not_keys have "override_name v = None" by fastforce
  with Some show ?thesis by (simp add: overridden_def)
qed

lemma module_names_rename: "module_names (map rename_stmt body) = map overridden (module_names body)"
  by (simp add: module_names_def map_concat comp_def stmt_names_rename)

lemma module_strings_rename:
  "module_strings (map rename_stmt body) = map overridden (module_strings body)"
  by (simp add: module_strings_def map_concat comp_def stmt_strings_rename)

lemma process_class_names:
  "process_class g bases kws cbody decos st = Inr (node', st') \<Longrightarrow>
   stmt_names node' = stmt_names (ClassDef g bases kws cbody decos)"
  by (auto simp: process_class_def Let_def fix_docstring_def
           split: if_splits sum.splits list.splits stmt.splits expr.splits const_value.splits)

lemma process_top_level_names:
  "process_top_level is_builtin idx node st = Inr (node', st') \<Longrightarrow> stmt_names node' = stmt_names node"
  by (auto simp: process_top_level_def dest: process_class_names
           split: stmt.splits list.splits expr.splits sum.splits)

lemma process_body_names:
  "process_body is_builtin idx body st = Inr (body', st') \<Longrightarrow> module_names body' = module_names body"
proof (induction body arbitrary: idx st body')
  case Nil
  then show ?case by simp
next
  case (Cons node rest)
  from Cons.prems obtain node' st1 rest' where
    step: "process_top_level is_builtin idx node st = Inr (node', st1)" and
    tail: "process_body is_builtin (Suc idx) rest st1 = Inr (rest', st')" and
    out: "body' = node' # rest'"
    by (auto split: sum.splits prod.splits)
  from Cons.IH [OF tail] process_top_level_names [OF step] out
  show ?case by (simp add: module_names_def)
qed

lemma top_level_class_renamed:
  assumes run: "process_body is_builtin idx body st = Inr (body', st')"
    and i: "i < length body"
    and cls: "body ! i = ClassDef generated_name bases kwds class_body decorator_list"
  shows "\<exists>class_body'. body' ! i =
           ClassDef (overridden generated_name) bases kwds class_body' decorator_list"
proof -
  from process_body_steps [OF run i] obtain st_i st_i' where
    "process_top_level is_builtin (idx + i) (body ! i) st_i = Inr (body' ! i, st_i')"
    by blast
  then have step: "process_class generated_name bases kwds class_body decorator_list st_i =
      Inr (body' ! i, st_i')"
    by (simp add: process_top_level_def cls)
  from process_class_result [OF step] show ?thesis
    by (cases "endswith (overridden generated_name) ''Dict''"; cases "override_name generated_name")
       auto
qed

lemma override_dict_keys:
  "\<forall>kv \<in> set DATA_MODEL_NAME_OVERRIDES.
     endswith (fst kv) ''Dict'' \<longrightarrow> override_name (removesuffix (fst kv) ''Dict'') \<noteq> None"
  by code_simp

lemma dict_suffix_not_key:
  assumes "override_name name = None"
  shows "override_name (name @ ''Dict'') = None"
proof (rule ccontr)
  assume "override_name (name @ ''Dict'') \<noteq> None"
  then obtain v where "map_of DATA_MODEL_NAME_OVERRIDES (name @ ''Dict'') = Some v"
    by (auto simp: override_name_def)
  then have "(name @ ''Dict'', v) \<in> set DATA_MODEL_NAME_OVERRIDES"
    by (rule map_of_SomeD)
  with override_dict_keys
  have "endswith (name @ ''Dict'') ''Dict'' \<longrightarrow>
        override_name (removesuffix (name @ ''Dict'') ''Dict'') \<noteq> None"
    by fastforce
  moreover have "endswith (name @ ''Dict'') ''Dict''"
    by (simp add: endswith_def)
  moreover have "removesuffix (name @ ''Dict'') ''Dict'' = name"
    by (simp add: removesuffix_def endswith_def)
  ultimately show False using assms by simp
qed

lemma child_nodes_names: "c \<in> set (child_nodes n) \<Longrightarrow> anode_names c \<subseteq> anode_names n"
proof (cases n)
  case (AExpr e)
  assume "c \<in> set (child_nodes n)"
  with AExpr show ?thesis
    by (cases e) auto
qed simp_all

lemma ast_walk_names:
  "n \<in> set (ast_walk todo) \<Longrightarrow> \<exists>m \<in> set todo. anode_names n \<subseteq> anode_names m"
proof (induction todo arbitrary: n rule: ast_walk.induct)
  case 1
  then show ?case by simp
next
  case (2 m todo)
  show ?case
  proof (cases "n = m")
    case True
    then show ?thesis by auto
  next
    case False
    with "2.prems" have "n \<in> set (ast_walk (todo @ child_nodes m))" by simp
    from "2.IH" [OF this] obtain k where
      k: "k \<in> set (todo @ child_nodes m)" "anode_names n \<subseteq> anode_names k"
      by blast
    show ?thesis
    proof (cases "k \<in> set todo")
      case True
      with k show ?thesis by auto
    next
      case False
      with k have "k \<in> set (child_nodes m)" by simp
      from child_nodes_names [OF this] k show ?thesis by auto
    qed
  qed
qed

lemma visit_union_child_names:
  "visit_union_child dtr n u = Inr u' \<Longrightarrow> anode_names n \<subseteq> S \<Longrightarrow>
   union_names_within S u \<Longrightarrow> union_names_within S u'"
  by (induction dtr n u rule: visit_union_child.induct)
     (fastforce simp: union_names_within_def split: if_splits)+

lemma visit_union_children_names:
  "visit_union_children dtr ns u = Inr u' \<Longrightarrow> \<forall>n \<in> set ns. anode_names n \<subseteq> S \<Longrightarrow>
   union_names_within S u \<Longrightarrow> union_names_within S u'"
proof (induction ns arbitrary: u)
  case Nil
  then show ?case by simp
next
  case (Cons n ns)
  from Cons.prems(1) obtain u1 where
    a: "visit_union_child dtr n u = Inr u1" and b: "visit_union_children dtr ns u1 = Inr u'"
    by (auto split: sum.splits)
  from visit_union_child_names [OF a _ Cons.prems(3)] Cons.prems(2)
  have "union_names_within S u1" by simp
  from Cons.IH [OF b _ this] Cons.prems(2) show ?case by simp
qed

lemma inspect_union_names:
  assumes "inspect_union dtr e = Inr u"
  shows "union_names_within (set (expr_names e)) u"
proof -
  have "\<forall>n \<in> set (ast_walk [AExpr e]). anode_names n \<subseteq> set (expr_names e)"
    using ast_walk_names [of _ "[AExpr e]"] by fastforce
  from visit_union_children_names [OF assms [unfolded inspect_union_def] this]
  show ?thesis by (simp add: union_names_within_def)
qed

lemma expr_names_named_union:
  "expr_names (foldl (\<lambda>dict_union m. BinOp dict_union BitOr (Name (f m) Load)) init ms) =
     expr_names init @ map f ms"
  by (induction ms arbitrary: init) simp_all

lemma expr_names_other_union:
  "expr_names (foldl (\<lambda>dict_union other. BinOp dict_union BitOr other) init others) =
     expr_names init @ concat (map expr_names others)"
  by (induction others arbitrary: init) simp_all

lemma build_dict_union_names:
  "build_dict_union dtr u = Inr dict_union \<Longrightarrow>
   expr_names dict_union =
     map (dict_member dtr) (named_union_members u) @
     concat (map expr_names (other_union_members u))"
  by (auto simp: build_dict_union_def Let_def expr_names_named_union expr_names_other_union
           split: list.splits)

lemma dict_member_clean:
  "\<forall>k v. dtr k = Some v \<longrightarrow> override_name v = None \<Longrightarrow> override_name m = None \<Longrightarrow>
   override_name (dict_member dtr m) = None"
  by (auto simp: dict_member_def split: option.splits)

lemma simple_alias_target_names:
  "simple_alias_target e = Some name \<Longrightarrow> name \<in> set (expr_names e)"
  by (auto simp: simple_alias_target_def split: expr.splits list.splits if_splits)

lemma process_alias_inv:
  assumes run: "process_alias is_builtin idx al e st = Inr st'"
    and inv: "scan_inv st"
    and al: "override_name al = None"
    and e: "\<forall>x \<in> set (expr_names e). override_name x = None"
  shows "scan_inv st'"
proof (cases "simple_alias_target e")
  case (Some name)
  from simple_alias_target_names [OF Some] e have "override_name name = None" by simp
  with run Some inv show ?thesis
    by (auto simp: process_alias_def scan_inv_def split: if_splits option.splits)
next
  case None
  show ?thesis
  proof (cases "\<exists>l r. e = BinOp l BitOr r")
    case False
    with run None have "st' = st"
      by (auto simp: process_alias_def split: expr.splits operator.splits)
    with inv show ?thesis by simp
  next
    case True
    then obtain l r where union: "e = BinOp l BitOr r" by blast
    with run None obtain u where u: "inspect_union (dict_token_replacements st) e = Inr u"
      by (auto simp: process_alias_def split: sum.splits)
    show ?thesis
    proof (cases "needs_dict_alias u")
      case False
      with run None union u have "st' = st"
        by (simp add: process_alias_def)
      with inv show ?thesis by simp
    next
      case True
      define dtr' where "dtr' = (dict_token_replacements st)(al \<mapsto> al @ ''Dict'')"
      from run None union u True obtain dict_union where
        du: "build_dict_union dtr' u = Inr dict_union" and
        st': "st' = st\<lparr>dict_token_replacements := dtr',
                       additional_nodes := additional_nodes st @
                         [(idx + 1, Assign [Name (al @ ''Dict'') Store] dict_union)]\<rparr>"
        by (auto simp: process_alias_def Let_def dtr'_def split: sum.splits)
      have dict_alias: "override_name (al @ ''Dict'') = None"
        using al by (rule dict_suffix_not_key)
      have dtr: "\<forall>k v. dtr' k = Some v \<longrightarrow> override_name v = None"
        using inv dict_alias by (auto simp: scan_inv_def dtr'_def)
      from inspect_union_names [OF u]
      have named: "set (named_union_members u) \<subseteq> set (expr_names e)"
        and others: "\<forall>other \<in> set (other_union_members u). set (expr_names other) \<subseteq> set (expr_names e)"
        by (auto simp: union_names_within_def)
      have "\<forall>x \<in> set (expr_names dict_union). override_name x = None"
        unfolding build_dict_union_names [OF du]
        using named others e dict_member_clean [OF dtr] by auto
      with inv dtr dict_alias show ?thesis
        by (auto simp: scan_inv_def st')
    qed
  qed
qed

lemma process_class_inv:
  "process_class g bases kwds cbody decos st = Inr (node', st') \<Longrightarrow> scan_inv st \<Longrightarrow> scan_inv st'"
  by (auto simp: process_class_def Let_def scan_inv_def overridden_not_key
           split: if_splits sum.splits)

lemma process_top_level_inv:
  assumes run: "process_top_level is_builtin idx node st = Inr (node', st')"
    and inv: "scan_inv st"
    and clean: "\<forall>x \<in> set (stmt_names node). override_name x = None"
  shows "scan_inv st'"
proof (cases node)
  case (ClassDef g bases kwds cbody decos)
  with run inv process_class_inv [of g bases kwds cbody decos st node' st'] show ?thesis
    by (simp add: process_top_level_def)
next
  case (Assign targets v)
  show ?thesis
  proof (cases "\<exists>a c. targets = [Name a c]")
    case True
    then obtain a c where t: "targets = [Name a c]" by blast
    with run Assign have "process_alias is_builtin idx a v st = Inr st'"
      by (auto simp: process_top_level_def split: sum.splits)
    from process_alias_inv [OF this inv] clean Assign t show ?thesis by simp
  next
    case False
    with run Assign have "st' = st"
      by (auto simp: process_top_level_def split: list.splits expr.splits)
    with inv show ?thesis by simp
  qed
next
  case (Expr v)
  with run inv show ?thesis by (auto simp: process_top_level_def)
next
  case (OtherStmt cls es body)
  with run inv show ?thesis by (auto simp: process_top_level_def)
qed

lemma process_body_inv:
  "process_body is_builtin idx body st = Inr (body', st') \<Longrightarrow> scan_inv st \<Longrightarrow>
   \<forall>x \<in> set (module_names body). override_name x = None \<Longrightarrow> scan_inv st'"
proof (induction body arbitrary: idx st body')
  case Nil
  then show ?case by simp
next
  case (Cons node rest)
  from Cons.prems(1) obtain node' st1 rest' where
    step: "process_top_level is_builtin idx node st = Inr (node', st1)" and
    tail: "process_body is_builtin (Suc idx) rest st1 = Inr (rest', st')"
    by (auto split: sum.splits prod.splits)
  from Cons.prems(3) have a: "\<forall>x \<in> set (stmt_names node). override_name x = None"
    and b: "\<forall>x \<in> set (module_names rest). override_name x = None"
    by (auto simp: module_names_def)
  from process_top_level_inv [OF step Cons.prems(2) a] have "scan_inv st1" .
  from Cons.IH [OF tail this b] show ?case .
qed

lemma module_names_append: "module_names (xs @ ys) = module_names xs @ module_names ys"
  by (simp add: module_names_def)

lemma module_names_insert_nodes:
  "set (module_names (insert_nodes nodes body)) \<subseteq>
     set (module_names body) \<union> (\<Union>n \<in> set nodes. set (stmt_names (snd n)))"
proof (induction nodes arbitrary: body)
  case Nil
  show ?case by simp
next
  case (Cons n nodes)
  obtain i node where n: "n = (i, node)" by (cases n)
  have "module_names [node] = stmt_names node"
    by (simp add: module_names_def)
  then have "set (module_names (take i body @ [node] @ drop i body)) =
      set (module_names (take i body @ drop i body)) \<union> set (stmt_names node)"
    by (auto simp only: module_names_append set_append)
  then have "set (module_names (take i body @ [node] @ drop i body)) =
      set (module_names body) \<union> set (stmt_names node)"
    by simp
  with Cons [of "take i body @ [node] @ drop i body"] n show ?case
    by (auto simp del: append.simps)
qed

lemma rewrite_tree_clean:
  assumes "rewrite_tree is_builtin body = Inr (body', st)"
  shows "(\<forall>x \<in> set (module_names body'). override_name x = None) \<and>
         (\<forall>x \<in> set (class_names body'). override_name x = None) \<and>
         (\<forall>k v. dict_token_replacements st k = Some v \<longrightarrow> override_name v = None)"
proof -
  from assms obtain body1 where
    run: "process_body is_builtin 0 (map rename_stmt body) initial_scan_state = Inr (body1, st)" and
    out: "body' = insert_nodes (rev (additional_nodes st)) body1"
    by (auto simp: rewrite_tree_def split: sum.splits prod.splits)
  have init: "scan_inv initial_scan_state"
    by (simp add: scan_inv_def initial_scan_state_def)
  have renamed: "\<forall>x \<in> set (module_names (map rename_stmt body)). override_name x = None"
    by (auto simp: module_names_rename overridden_not_key)
  from process_body_inv [OF run init renamed] have inv: "scan_inv st" .
  have "module_names body1 = module_names (map rename_stmt body)"
    using run by (rule process_body_names)
  with renamed have body1: "\<forall>x \<in> set (module_names body1). override_name x = None" by simp
  have a: "\<forall>x \<in> set (module_names body'). override_name x = None"
  proof
    fix x
    assume "x \<in> set (module_names body')"
    with module_names_insert_nodes [of "rev (additional_nodes st)" body1] out
    have "x \<in> set (module_names body1) \<or>
          (\<exists>n \<in> set (additional_nodes st). x \<in> set (stmt_names (snd n)))"
      by auto
    with body1 inv show "override_name x = None"
      by (auto simp: scan_inv_def)
  qed
  have b: "\<forall>x \<in> set (class_names body'). override_name x = None"
    using rewrite_tree_exports [OF assms] inv by (simp add: scan_inv_def)
  from a b inv show ?thesis by (simp add: scan_inv_def)
qed

text \<open>
  C7 as stated fails for a class definition that is not at the top level: the scan of all
  nodes renames \<^verbatim>\<open>Name\<close> and \<^verbatim>\<open>Constant\<close> nodes only, and the scan that renames classes
  looks at the top-level nodes only. The nested class \<^verbatim>\<open>ChatMessageData\<close> keeps its name.
\<close>

theorem nested_class_not_renamed:
  "override_name ''ChatMessageData'' = Some ''AnyChatMessage'' \<and>
   tree_body example_builtin [example_nested] =
     Inr [ClassDef ''Wrapper'' [] []
            [ClassDef ''ChatMessageData'' [] [] [OtherStmt ''Pass'' [] []] []] []]"
  by code_simp

text \<open>
  C7, amended. In the renamed tree the identifier of every \<^verbatim>\<open>Name\<close> node and the value of
  every string constant is the override of what it was, site by site, and none of them is
  a key of the table. If the scan of the top-level nodes returns, it leaves the
  identifiers of the \<^verbatim>\<open>Name\<close> nodes as they are, and every top-level class definition
  carries the override of its name, which is not a key either. In the final tree, with
  the synthesized aliases inserted, no \<^verbatim>\<open>Name\<close> node and no top-level class is named by a
  key, and no replacement recorded for the token-level pass is a key.
\<close>

theorem tree_rename_complete:
  "module_names (map rename_stmt body) = map overridden (module_names body) \<and>
   module_strings (map rename_stmt body) = map overridden (module_strings body) \<and>
   (\<forall>name \<in> set (module_names (map rename_stmt body)) \<union> set (module_strings (map rename_stmt body)).
      override_name name = None) \<and>
   (\<forall>is_builtin st body' st'.
      process_body is_builtin 0 (map rename_stmt body) st = Inr (body', st') \<longrightarrow>
        module_names body' = module_names (map rename_stmt body) \<and>
        (\<forall>i generated_name bases kwds class_body decorator_list.
           i < length body \<and>
           map rename_stmt body ! i =
             ClassDef generated_name bases kwds class_body decorator_list \<longrightarrow>
           override_name (overridden generated_name) = None \<and>
           (\<exists>class_body'. body' ! i =
              ClassDef (overridden generated_name) bases kwds class_body' decorator_list))) \<and>
   (\<forall>is_builtin body' st.
      rewrite_tree is_builtin body = Inr (body', st) \<longrightarrow>
        (\<forall>name \<in> set (module_names body') \<union> set (class_names body'). override_name name = None) \<and>
        (\<forall>k v. dict_token_replacements st k = Some v \<longrightarrow> override_name v = None))"
proof (intro conjI ballI allI impI)
  show "module_names (map rename_stmt body) = map overridden (module_names body)"
    by (rule module_names_rename)
  show "module_strings (map rename_stmt body) = map overridden (module_strings body)"
    by (rule module_strings_rename)
next
  fix name
  assume "name \<in> set (module_names (map rename_stmt body)) \<union> set (module_strings (map rename_stmt body))"
  then obtain n where "name = overridden n"
    by (auto simp: module_names_rename module_strings_rename)
  then show "override_name name = None" by (simp add: overridden_not_key)
next
  fix is_builtin st body' st'
  assume run: "process_body is_builtin 0 (map rename_stmt body) st = Inr (body', st')"
  show "module_names body' = module_names (map rename_stmt body)"
    using run by (rule process_body_names)
  fix i generated_name bases kwds class_body decorator_list
  assume h: "i < length body \<and>
           map rename_stmt body ! i =
             ClassDef generated_name bases kwds class_body decorator_list"
  show "override_name (overridden generated_name) = None"
    by (rule overridden_not_key)
  from h have "i < length (map rename_stmt body)" by simp
  from top_level_class_renamed [OF run this] h
  show "\<exists>class_body'. body' ! i =
              ClassDef (overridden generated_name) bases kwds class_body' decorator_list"
    by blast
next
  fix is_builtin body' st name
  assume run: "rewrite_tree is_builtin body = Inr (body', st)"
    and name: "name \<in> set (module_names body') \<union> set (class_names body')"
  from rewrite_tree_clean [OF run] name show "override_name name = None"
    by blast
next
  fix is_builtin body' st k v
  assume run: "rewrite_tree is_builtin body = Inr (body', st)"
    and v: "dict_token_replacements st k = Some v"
  from rewrite_tree_clean [OF run] v show "override_name v = None"
    by blast
qed

theorem tree_rename_complete_witness:
  "module_names (map rename_stmt example_rename_module) = [''History'', ''AnyChatMessage''] \<and>
   module_strings (map rename_stmt example_rename_module) = [''AnyChatMessage''] \<and>
   (\<exists>body' st' class_body'.
      process_body example_builtin 0 (map rename_stmt example_rename_module) initial_scan_state =
        Inr (body', st') \<and>
      body' ! 1 = ClassDef ''UserMessage'' [] [] class_body' [])"
proof -
  note all = tree_rename_complete [of example_rename_module]
  have names: "map overridden (module_names example_rename_module) = [''History'', ''AnyChatMessage'']"
    by code_simp
  have strings: "map overridden (module_strings example_rename_module) = [''AnyChatMessage'']"
    by code_simp
  have "case process_body example_builtin 0 (map rename_stmt example_rename_module)
               initial_scan_state of Inr _ \<Rightarrow> True | Inl _ \<Rightarrow> False"
    by code_simp
  then obtain body' st' where
    run: "process_body example_builtin 0 (map rename_stmt example_rename_module)
            initial_scan_state = Inr (body', st')"
    by (auto split: sum.splits)
  have cls: "1 < length example_rename_module \<and>
      map rename_stmt example_rename_module ! 1 =
        ClassDef ''ChatMessageDataUser'' [] [] [Expr (Constant (CStr ''AnyChatMessage''))] []"
    by code_simp
  have new: "overridden ''ChatMessageDataUser'' = ''UserMessage''"
    by code_simp
  from all run cls have "\<exists>class_body'. body' ! 1 =
      ClassDef (overridden ''ChatMessageDataUser'') [] [] class_body' []"
    by blast
  with run new have "\<exists>body' st' class_body'.
      process_body example_builtin 0 (map rename_stmt example_rename_module) initial_scan_state =
        Inr (body', st') \<and>
      body' ! 1 = ClassDef ''UserMessage'' [] [] class_body' []"
    by auto
  with all names strings show ?thesis by simp
qed

section \<open>The docstring of a renamed class\<close>

lemma class_stmts_append: "class_stmts (xs @ ys) = class_stmts xs @ class_stmts ys"
  by (induction xs rule: class_stmts.induct) simp_all

lemma class_stmts_Cons_assign: "is_assign node \<Longrightarrow> class_stmts (node # rest) = class_stmts rest"
  by (cases node) simp_all

lemma class_stmts_insert:
  "is_assign node \<Longrightarrow> class_stmts (take i body @ [node] @ drop i body) = class_stmts body"
proof -
  assume "is_assign node"
  then have "class_stmts (take i body @ [node] @ drop i body) =
      class_stmts (take i body) @ class_stmts (drop i body)"
    by (simp add: class_stmts_append class_stmts_Cons_assign)
  also have "\<dots> = class_stmts (take i body @ drop i body)"
    by (simp only: class_stmts_append)
  finally show ?thesis by simp
qed

lemma class_stmts_insert_nodes:
  "\<forall>n \<in> set nodes. is_assign (snd n) \<Longrightarrow> class_stmts (insert_nodes nodes body) = class_stmts body"
proof (induction nodes arbitrary: body)
  case Nil
  then show ?case by simp
next
  case (Cons n nodes)
  obtain i node where n: "n = (i, node)" by (cases n)
  with Cons.prems have "is_assign node" by simp
  with Cons n show ?case by (simp add: class_stmts_insert del: append.simps)
qed

lemma process_class_repaired:
  assumes "process_class g bases kws cbody decos st = Inr (node', st')"
  shows "class_repaired (ClassDef g bases kws cbody decos) node'"
  using process_class_result [OF assms]
  by (auto simp: class_repaired_def)

lemma process_top_level_classes:
  assumes "process_top_level is_builtin idx node st = Inr (node', st')"
  shows "list_all2 class_repaired (class_stmts [node]) (class_stmts [node'])"
proof (cases node)
  case (ClassDef g bases kwds cbody decos)
  with assms have step: "process_class g bases kwds cbody decos st = Inr (node', st')"
    by (simp add: process_top_level_def)
  from process_class_repaired [OF step] have r: "class_repaired node node'"
    by (simp add: ClassDef)
  then obtain n b k c d where "node' = ClassDef n b k c d"
    by (auto simp: class_repaired_def ClassDef split: if_splits)
  with r ClassDef show ?thesis by simp
next
  case (Assign targets v)
  with assms have "node' = node"
    by (auto simp: process_top_level_def split: list.splits expr.splits sum.splits)
  with Assign show ?thesis by simp
next
  case (Expr v)
  with assms show ?thesis by (auto simp: process_top_level_def)
next
  case (OtherStmt cls es body)
  with assms show ?thesis by (auto simp: process_top_level_def)
qed

lemma process_body_classes:
  "process_body is_builtin idx body st = Inr (body', st') \<Longrightarrow>
   list_all2 class_repaired (class_stmts body) (class_stmts body')"
proof (induction body arbitrary: idx st body')
  case Nil
  then show ?case by simp
next
  case (Cons node rest)
  from Cons.prems obtain node' st1 rest' where
    step: "process_top_level is_builtin idx node st = Inr (node', st1)" and
    tail: "process_body is_builtin (Suc idx) rest st1 = Inr (rest', st')" and
    out: "body' = node' # rest'"
    by (auto split: sum.splits prod.splits)
  from process_top_level_classes [OF step] Cons.IH [OF tail]
  have "list_all2 class_repaired (class_stmts [node] @ class_stmts rest)
          (class_stmts [node'] @ class_stmts rest')"
    by (rule list_all2_appendI)
  then show ?case
    using class_stmts_append [of "[node]" rest] class_stmts_append [of "[node']" rest'] out
    by simp
qed

text \<open>
  C4 as stated fails: the docstring of a renamed structured (non-mirror) class is left as
  it is. The class \<^verbatim>\<open>LlmRpcGetLoadConfigReturns\<close> becomes \<^verbatim>\<open>SerializedKVConfigSettings\<close>, and
  its docstring still mentions \<^verbatim>\<open>LlmRpcGetLoadConfigReturns\<close>.
\<close>

theorem struct_docstring_not_repaired:
  "override_name ''LlmRpcGetLoadConfigReturns'' = Some ''SerializedKVConfigSettings'' \<and>
   tree_body example_builtin [example_struct] =
     Inr [ClassDef ''SerializedKVConfigSettings'' [Name ''LMStudioStruct'' Load]
            [(Some ''kw_only'', Constant (COther ''True''))]
            [Expr (Constant (CStr ''Settings held by LlmRpcGetLoadConfigReturns.'')),
             OtherStmt ''AnnAssign'' [Name ''fields'' Store, Name ''int'' Load] []]
            []]"
  by code_simp

text \<open>
  C4, amended. Let the tree-level post-processing return. The top-level classes of the
  final body are, in order, the top-level classes of the body as the scan of all nodes
  left it, each under the name that the override table gives it. A class whose new name
  does not end with \<^verbatim>\<open>Dict\<close> (a structured class) is otherwise exactly as the scan of all
  nodes left it, and so is a class that was not renamed: the docstring of a renamed
  structured class is not repaired. A renamed class whose new name ends with \<^verbatim>\<open>Dict\<close> (a
  mirror class) begins with its docstring, a string constant, and that constant is the
  only part of the class that may differ.
\<close>

theorem renamed_class_docstrings:
  assumes run: "rewrite_tree is_builtin body = Inr (body', st)"
  shows "list_all2 class_repaired (class_stmts (map rename_stmt body)) (class_stmts body')"
proof -
  from run obtain body1 where
    scan: "process_body is_builtin 0 (map rename_stmt body) initial_scan_state = Inr (body1, st)" and
    out: "body' = insert_nodes (rev (additional_nodes st)) body1"
    by (auto simp: rewrite_tree_def split: sum.splits prod.splits)
  from process_body_exports [OF scan]
  have "\<forall>n \<in> set (rev (additional_nodes st)). is_assign (snd n)"
    by (auto simp: initial_scan_state_def)
  from class_stmts_insert_nodes [OF this] out have "class_stmts body' = class_stmts body1"
    by simp
  with process_body_classes [OF scan] show ?thesis by simp
qed

theorem renamed_class_docstrings_witness:
  "\<exists>body' st docstring'.
     rewrite_tree example_builtin [example_struct, example_mirror] = Inr (body', st) \<and>
     class_stmts body' =
       [ClassDef ''SerializedKVConfigSettings'' [Name ''LMStudioStruct'' Load]
          [(Some ''kw_only'', Constant (COther ''True''))]
          [Expr (Constant (CStr ''Settings held by LlmRpcGetLoadConfigReturns.'')),
           OtherStmt ''AnnAssign'' [Name ''fields'' Store, Name ''int'' Load] []]
          [],
        ClassDef ''SerializedKVConfigSettingsDict'' [Name ''TypedDict'' Load] []
          [Expr (Constant (CStr docstring')),
           OtherStmt ''AnnAssign'' [Name ''fields'' Store, Name ''int'' Load] []]
          []]"
proof -
  have "case rewrite_tree example_builtin [example_struct, example_mirror] of
          Inr _ \<Rightarrow> True | Inl _ \<Rightarrow> False"
    by code_simp
  then obtain body' st where
    run: "rewrite_tree example_builtin [example_struct, example_mirror] = Inr (body', st)"
    by (auto split: sum.splits)
  have scanned: "class_stmts (map rename_stmt [example_struct, example_mirror]) =
      [ClassDef ''LlmRpcGetLoadConfigReturns'' [Name ''LMStudioStruct'' Load]
         [(Some ''kw_only'', Constant (COther ''True''))]
         [Expr (Constant (CStr ''Settings held by LlmRpcGetLoadConfigReturns.'')),
          OtherStmt ''AnnAssign'' [Name ''fields'' Store, Name ''int'' Load] []]
         [],
       ClassDef ''LlmRpcGetLoadConfigReturnsDict'' [Name ''TypedDict'' Load] []
         [Expr (Constant (CStr ''Dict form, see LlmRpcGetLoadConfigReturnsDict.'')),
          OtherStmt ''AnnAssign'' [Name ''fields'' Store, Name ''int'' Load] []]
         []]"
    by code_simp
  have names: "overridden ''LlmRpcGetLoadConfigReturns'' = ''SerializedKVConfigSettings''"
    "overridden ''LlmRpcGetLoadConfigReturnsDict'' = ''SerializedKVConfigSettingsDict''"
    "override_name ''LlmRpcGetLoadConfigReturnsDict'' \<noteq> None"
    "\<not> endswith ''SerializedKVConfigSettings'' ''Dict''"
    "endswith ''SerializedKVConfigSettingsDict'' ''Dict''"
    by code_simp+
  from renamed_class_docstrings [OF run]
  have "list_all2 class_repaired
      [ClassDef ''LlmRpcGetLoadConfigReturns'' [Name ''LMStudioStruct'' Load]
         [(Some ''kw_only'', Constant (COther ''True''))]
         [Expr (Constant (CStr ''Settings held by LlmRpcGetLoadConfigReturns.'')),
          OtherStmt ''AnnAssign'' [Name ''fields'' Store, Name ''int'' Load] []]
         [],
       ClassDef ''LlmRpcGetLoadConfigReturnsDict'' [Name ''TypedDict'' Load] []
         [Expr (Constant (CStr ''Dict form, see LlmRpcGetLoadConfigReturnsDict.'')),
          OtherStmt ''AnnAssign'' [Name ''fields'' Store, Name ''int'' Load] []]
         []]
      (class_stmts body')"
    by (simp only: scanned)
  then obtain c0 c1 where
    cs: "class_stmts body' = [c0, c1]" and
    r0: "class_repaired
      (ClassDef ''LlmRpcGetLoadConfigReturns'' [Name ''LMStudioStruct'' Load]
         [(Some ''kw_only'', Constant (COther ''True''))]
         [Expr (Constant (CStr ''Settings held by LlmRpcGetLoadConfigReturns.'')),
          OtherStmt ''AnnAssign'' [Name ''fields'' Store, Name ''int'' Load] []]
         []) c0" and
    r1: "class_repaired
      (ClassDef ''LlmRpcGetLoadConfigReturnsDict'' [Name ''TypedDict'' Load] []
         [Expr (Constant (CStr ''Dict form, see LlmRpcGetLoadConfigReturnsDict.'')),
          OtherStmt ''AnnAssign'' [Name ''fields'' Store, Name ''int'' Load] []]
         []) c1"
    by (auto simp: list_all2_Cons1)
  from r0 names have c0: "c0 =
      ClassDef ''SerializedKVConfigSettings'' [Name ''LMStudioStruct'' Load]
          [(Some ''kw_only'', Constant (COther ''True''))]
          [Expr (Constant (CStr ''Settings held by LlmRpcGetLoadConfigReturns.'')),
           OtherStmt ''AnnAssign'' [Name ''fields'' Store, Name ''int'' Load] []]
          []"
    by (simp add: class_repaired_def)
  from r1 names obtain docstring' where c1: "c1 =
      ClassDef ''SerializedKVConfigSettingsDict'' [Name ''TypedDict'' Load] []
          [Expr (Constant (CStr docstring')),
           OtherStmt ''AnnAssign'' [Name ''fields'' Store, Name ''int'' Load] []]
          []"
    by (auto simp: class_repaired_def)
  from run cs c0 c1 show ?thesis by blast
qed

text \<open>
  The repair substitutes the generated name of the mirror class itself. A docstring that
  refers to the structured class by its generated name does not contain that name, and
  is left as it is.
\<close>

lemma mirror_docstring_struct_reference:
  "tree_body example_builtin [example_struct, example_mirror_for] =
     Inr [ClassDef ''SerializedKVConfigSettings'' [Name ''LMStudioStruct'' Load]
            [(Some ''kw_only'', Constant (COther ''True''))]
            [Expr (Constant (CStr ''Settings held by LlmRpcGetLoadConfigReturns.'')),
             OtherStmt ''AnnAssign'' [Name ''fields'' Store, Name ''int'' Load] []]
            [],
          ClassDef ''SerializedKVConfigSettingsDict'' [Name ''TypedDict'' Load] []
            [Expr (Constant (CStr ''Corresponding typed dictionary definition for LlmRpcGetLoadConfigReturns.'')),
             OtherStmt ''AnnAssign'' [Name ''fields'' Store, Name ''int'' Load] []]
            []]"
  by code_simp

section \<open>The token-level rewrite\<close>

lemma rewrite_tokens_skip:
  "\<forall>t \<in> set pre. t \<noteq> (NAME, ''class'') \<Longrightarrow>
   rewrite_tokens dtr False False (pre @ ts) =
     (case rewrite_tokens dtr False False ts of Inl e \<Rightarrow> Inl e | Inr r \<Rightarrow> Inr (pre @ r))"
proof (induction pre)
  case Nil
  show ?case by (simp split: sum.splits)
next
  case (Cons t pre)
  obtain ty s where t: "t = (ty, s)" by (cases t)
  with Cons.prems have f: "(ty = NAME \<and> s = ''class'') = False" by auto
  from Cons t show ?case by (simp add: f split: sum.splits)
qed

lemma rewrite_tokens_window:
  "\<forall>t \<in> set win. fst t \<noteq> DEDENT \<Longrightarrow>
   rewrite_tokens dtr False True (win @ ts) =
     (case rewrite_tokens dtr False True ts of
        Inl e \<Rightarrow> Inl e
      | Inr r \<Rightarrow> Inr (map (subst_token dtr) win @ r))"
proof (induction win)
  case Nil
  show ?case by (simp split: sum.splits)
next
  case (Cons t win)
  obtain ty s where t: "t = (ty, s)" by (cases t)
  with Cons show ?case by (simp add: subst_token_def split: sum.splits)
qed

lemma rewrite_tokens_header:
  "rewrite_tokens dtr False False ((NAME, ''class'') # (NAME, n) # ts) =
     (case rewrite_tokens dtr False (endswith n ''Dict'') ts of
        Inl e \<Rightarrow> Inl e
      | Inr r \<Rightarrow> Inr ((NAME, ''class'') # (NAME, n) # r))"
  by (simp split: sum.splits)

lemma rewrite_tokens_dedent:
  "rewrite_tokens dtr False True ((DEDENT, d) # ts) =
     (case rewrite_tokens dtr False False ts of
        Inl e \<Rightarrow> Inl e
      | Inr r \<Rightarrow> Inr ((DEDENT, d) # r))"
  by (simp split: sum.splits)

text \<open>
  C8 as stated fails: the replacement does not wait for the class body. It starts with
  the token after the class name, so a \<^verbatim>\<open>NAME\<close> token of the class header (token 3 below,
  before the \<^verbatim>\<open>INDENT\<close> that opens the body) is replaced as well.
\<close>

theorem header_name_replaced:
  "rewrite_tokens example_replacements False False example_tokens =
     Inr [(NAME, ''class''), (NAME, ''FooDict''), (OP, ''(''), (NAME, ''FooDict''), (OP, '')''),
          (OP, '':''), (NEWLINE, [CHR 0x0A]), (INDENT, ''    ''),
          (NAME, ''key''), (OP, '':''), (NAME, ''str''), (NEWLINE, [CHR 0x0A]),
          (DEDENT, []), (ENDMARKER, [])] \<and>
   example_tokens ! 3 = (NAME, ''Foo'') \<and>
   example_tokens ! 7 = (INDENT, ''    '')"
  by code_simp

text \<open>
  C8, amended. From the start of the lexical pass: tokens up to and including a \<^verbatim>\<open>class\<close>
  keyword and the class name after it are copied. If the class name ends with \<^verbatim>\<open>Dict\<close>,
  every \<^verbatim>\<open>NAME\<close> token after the class name (in the rest of the class header and in the
  body) that is a key of the replacements is replaced by its value, up to the first
  \<^verbatim>\<open>DEDENT\<close> token, which is copied and after which the pass goes on as from the start; all
  other tokens in between are copied. After the name of any other class the pass goes on
  as from the start. Tokens without a \<^verbatim>\<open>class\<close> keyword are copied. A token after
  \<^verbatim>\<open>class\<close> that is not a \<^verbatim>\<open>NAME\<close> fails the assertion.
\<close>

theorem mirror_token_rewrite:
  "((\<forall>t \<in> set ts. t \<noteq> (NAME, ''class'')) \<longrightarrow> rewrite_tokens dtr False False ts = Inr ts)
   \<and> ((\<forall>t \<in> set pre. t \<noteq> (NAME, ''class'')) \<and> endswith n ''Dict'' \<and>
        (\<forall>t \<in> set win. fst t \<noteq> DEDENT) \<longrightarrow>
        rewrite_tokens dtr False False
          (pre @ (NAME, ''class'') # (NAME, n) # win @ (DEDENT, d) # rest) =
          (case rewrite_tokens dtr False False rest of
             Inl e \<Rightarrow> Inl e
           | Inr r \<Rightarrow>
               Inr (pre @ (NAME, ''class'') # (NAME, n) # map (subst_token dtr) win @
                    (DEDENT, d) # r)))
   \<and> ((\<forall>t \<in> set pre. t \<noteq> (NAME, ''class'')) \<and> endswith n ''Dict'' \<and>
        (\<forall>t \<in> set win. fst t \<noteq> DEDENT) \<longrightarrow>
        rewrite_tokens dtr False False (pre @ (NAME, ''class'') # (NAME, n) # win) =
          Inr (pre @ (NAME, ''class'') # (NAME, n) # map (subst_token dtr) win))
   \<and> ((\<forall>t \<in> set pre. t \<noteq> (NAME, ''class'')) \<and> \<not> endswith n ''Dict'' \<longrightarrow>
        rewrite_tokens dtr False False (pre @ (NAME, ''class'') # (NAME, n) # rest) =
          (case rewrite_tokens dtr False False rest of
             Inl e \<Rightarrow> Inl e
           | Inr r \<Rightarrow> Inr (pre @ (NAME, ''class'') # (NAME, n) # r)))
   \<and> ((\<forall>t \<in> set pre. t \<noteq> (NAME, ''class'')) \<and> fst t' \<noteq> NAME \<longrightarrow>
        rewrite_tokens dtr False False (pre @ (NAME, ''class'') # t' # rest) = Inl AssertionError)"
proof (intro conjI impI)
  assume "\<forall>t \<in> set ts. t \<noteq> (NAME, ''class'')"
  from rewrite_tokens_skip [OF this, of dtr "[]"]
  show "rewrite_tokens dtr False False ts = Inr ts" by simp
next
  assume h: "(\<forall>t \<in> set pre. t \<noteq> (NAME, ''class'')) \<and> endswith n ''Dict'' \<and>
        (\<forall>t \<in> set win. fst t \<noteq> DEDENT)"
  then have pre: "\<forall>t \<in> set pre. t \<noteq> (NAME, ''class'')" and n: "endswith n ''Dict''"
    and win: "\<forall>t \<in> set win. fst t \<noteq> DEDENT" by auto
  show "rewrite_tokens dtr False False
          (pre @ (NAME, ''class'') # (NAME, n) # win @ (DEDENT, d) # rest) =
          (case rewrite_tokens dtr False False rest of
             Inl e \<Rightarrow> Inl e
           | Inr r \<Rightarrow>
               Inr (pre @ (NAME, ''class'') # (NAME, n) # map (subst_token dtr) win @
                    (DEDENT, d) # r))"
    by (simp only: rewrite_tokens_skip [OF pre] rewrite_tokens_header n
          rewrite_tokens_window [OF win] rewrite_tokens_dedent)
       (simp split: sum.splits)
  show "rewrite_tokens dtr False False (pre @ (NAME, ''class'') # (NAME, n) # win) =
          Inr (pre @ (NAME, ''class'') # (NAME, n) # map (subst_token dtr) win)"
    using rewrite_tokens_window [OF win, of dtr "[]"]
    by (simp only: rewrite_tokens_skip [OF pre] rewrite_tokens_header n) simp
next
  assume h: "(\<forall>t \<in> set pre. t \<noteq> (NAME, ''class'')) \<and> \<not> endswith n ''Dict''"
  then have pre: "\<forall>t \<in> set pre. t \<noteq> (NAME, ''class'')" and n: "\<not> endswith n ''Dict''"
    by auto
  show "rewrite_tokens dtr False False (pre @ (NAME, ''class'') # (NAME, n) # rest) =
          (case rewrite_tokens dtr False False rest of
             Inl e \<Rightarrow> Inl e
           | Inr r \<Rightarrow> Inr (pre @ (NAME, ''class'') # (NAME, n) # r))"
    by (simp only: rewrite_tokens_skip [OF pre] rewrite_tokens_header n)
       (simp split: sum.splits)
next
  assume h: "(\<forall>t \<in> set pre. t \<noteq> (NAME, ''class'')) \<and> fst t' \<noteq> NAME"
  then have pre: "\<forall>t \<in> set pre. t \<noteq> (NAME, ''class'')" and t': "fst t' \<noteq> NAME"
    by auto
  obtain ty s where "t' = (ty, s)" by (cases t')
  with t' have "rewrite_tokens dtr False False ((NAME, ''class'') # t' # rest) = Inl AssertionError"
    by simp
  then show "rewrite_tokens dtr False False (pre @ (NAME, ''class'') # t' # rest) = Inl AssertionError"
    by (simp only: rewrite_tokens_skip [OF pre]) simp
qed

theorem mirror_token_rewrite_witness:
  "rewrite_tokens example_replacements False False
     ([(NAME, ''ModelKey''), (OP, ''=''), (NAME, ''str''), (NEWLINE, [CHR 0x0A])] @
      (NAME, ''class'') # (NAME, ''FooDict'') #
      [(OP, '':''), (NEWLINE, [CHR 0x0A]), (INDENT, ''    ''), (NAME, ''key''), (OP, '':''),
       (NAME, ''ModelKey''), (NEWLINE, [CHR 0x0A])] @
      (DEDENT, []) # [(NAME, ''ModelKey''), (ENDMARKER, [])]) =
   Inr ([(NAME, ''ModelKey''), (OP, ''=''), (NAME, ''str''), (NEWLINE, [CHR 0x0A])] @
        (NAME, ''class'') # (NAME, ''FooDict'') #
        [(OP, '':''), (NEWLINE, [CHR 0x0A]), (INDENT, ''    ''), (NAME, ''key''), (OP, '':''),
         (NAME, ''str''), (NEWLINE, [CHR 0x0A])] @
        (DEDENT, []) # [(NAME, ''ModelKey''), (ENDMARKER, [])])"
proof -
  have pre: "\<forall>t \<in> set [(NAME, ''ModelKey''), (OP, ''=''), (NAME, ''str''), (NEWLINE, [CHR 0x0A])].
      t \<noteq> (NAME, ''class'')"
    by simp
  have n: "endswith ''FooDict'' ''Dict''"
    by code_simp
  have win: "\<forall>t \<in> set [(OP, '':''), (NEWLINE, [CHR 0x0A]), (INDENT, ''    ''), (NAME, ''key''),
      (OP, '':''), (NAME, ''ModelKey''), (NEWLINE, [CHR 0x0A])]. fst t \<noteq> DEDENT"
    by simp
  have rest: "rewrite_tokens example_replacements False False [(NAME, ''ModelKey''), (ENDMARKER, [])] =
      Inr [(NAME, ''ModelKey''), (ENDMARKER, [])]"
    by code_simp
  have subst: "map (subst_token example_replacements)
      [(OP, '':''), (NEWLINE, [CHR 0x0A]), (INDENT, ''    ''), (NAME, ''key''),
       (OP, '':''), (NAME, ''ModelKey''), (NEWLINE, [CHR 0x0A])] =
      [(OP, '':''), (NEWLINE, [CHR 0x0A]), (INDENT, ''    ''), (NAME, ''key''), (OP, '':''),
       (NAME, ''str''), (NEWLINE, [CHR 0x0A])]"
    by code_simp
  from mirror_token_rewrite
    [of "[(NAME, ''ModelKey''), (ENDMARKER, [])]" example_replacements
        "[(NAME, ''ModelKey''), (OP, ''=''), (NAME, ''str''), (NEWLINE, [CHR 0x0A])]"
        "''FooDict''"
        "[(OP, '':''), (NEWLINE, [CHR 0x0A]), (INDENT, ''    ''), (NAME, ''key''), (OP, '':''),
          (NAME, ''ModelKey''), (NEWLINE, [CHR 0x0A])]"
        "[]" "[(NAME, ''ModelKey''), (ENDMARKER, [])]"]
    pre n win
  have "rewrite_tokens example_replacements False False
     ([(NAME, ''ModelKey''), (OP, ''=''), (NAME, ''str''), (NEWLINE, [CHR 0x0A])] @
      (NAME, ''class'') # (NAME, ''FooDict'') #
      [(OP, '':''), (NEWLINE, [CHR 0x0A]), (INDENT, ''    ''), (NAME, ''key''), (OP, '':''),
       (NAME, ''ModelKey''), (NEWLINE, [CHR 0x0A])] @
      (DEDENT, []) # [(NAME, ''ModelKey''), (ENDMARKER, [])]) =
     (case rewrite_tokens example_replacements False False [(NAME, ''ModelKey''), (ENDMARKER, [])] of
        Inl e \<Rightarrow> Inl e
      | Inr r \<Rightarrow>
          Inr ([(NAME, ''ModelKey''), (OP, ''=''), (NAME, ''str''), (NEWLINE, [CHR 0x0A])] @
               (NAME, ''class'') # (NAME, ''FooDict'') #
               map (subst_token example_replacements)
                 [(OP, '':''), (NEWLINE, [CHR 0x0A]), (INDENT, ''    ''), (NAME, ''key''),
                  (OP, '':''), (NAME, ''ModelKey''), (NEWLINE, [CHR 0x0A])] @
               (DEDENT, []) # r))"
    by blast
  then show ?thesis
    by (simp only: rest subst sum.case)
qed

section \<open>The dict alias of a union alias\<close>

text \<open>
  C6. For \<^verbatim>\<open>Settings = Foo | Mapping[str, str]\<close>, where \<^verbatim>\<open>Foo\<close> has the mirror \<^verbatim>\<open>FooDict\<close>,
  the claim gives \<^verbatim>\<open>SettingsDict = FooDict | Mapping[str, str]\<close>. The walk over the union
  also yields the \<^verbatim>\<open>Name\<close> nodes inside the subscript, which the loop takes for named
  members, and the alias that is inserted is
  \<^verbatim>\<open>SettingsDict = FooDict | Mapping | str | str | Mapping[str, str]\<close>.
\<close>

theorem mapping_member_names_leak:
  "inspect_union [''Foo'' \<mapsto> ''FooDict'']
     (BinOp (Name ''Foo'' Load) BitOr
        (Subscript (Name ''Mapping'' Load)
           (Tuple [Name ''str'' Load, Name ''str'' Load] Load) Load)) =
     Inr \<lparr>named_union_members = [''Foo'', ''Mapping'', ''str'', ''str''],
          other_union_members =
            [Subscript (Name ''Mapping'' Load)
               (Tuple [Name ''str'' Load, Name ''str'' Load] Load) Load],
          optional_union = False, needs_dict_alias = True\<rparr> \<and>
   tree_body example_builtin [example_foo, example_foo_dict, example_union_alias] =
     Inr [example_foo, example_foo_dict, example_union_alias,
          Assign [Name ''SettingsDict'' Store]
            (BinOp
              (BinOp
                (BinOp (BinOp (Name ''FooDict'' Load) BitOr (Name ''Mapping'' Load)) BitOr
                   (Name ''str'' Load))
                BitOr (Name ''str'' Load))
              BitOr
              (Subscript (Name ''Mapping'' Load)
                 (Tuple [Name ''str'' Load, Name ''str'' Load] Load) Load))]"
  by code_simp

end
